theory Spec2Isabelle
  imports Complex_Main "HOL-Library.Sublist"
begin

section \<open>Press-release AI sentiment: the text-to-sentiment pipeline\<close>

text \<open>
  A shallow embedding of \<^verbatim>\<open>src/pressrelease_sentiment.py\<close>: the date helpers, the
  AI-relevance filter, the German lexicon scorer, the labelling and aggregation rules and
  the per-release loop of \<^verbatim>\<open>run_pipeline\<close>.

  Conventions of the model.
  \<^item> A Python \<^verbatim>\<open>str\<close> is a \<open>string\<close> whose characters are read as the code points
    0..255 (Latin-1), so \<open>length\<close> counts code points as Python's \<^verbatim>\<open>len\<close> does; the
    character classes of \<^verbatim>\<open>re\<close> and \<^verbatim>\<open>str.lower\<close>, \<^verbatim>\<open>str.strip\<close> are those of
    Python 3 on that range. Text with code points above 255 is outside the model.
  \<^item> A Python \<^verbatim>\<open>float\<close> is a \<open>real\<close>: scores are exact numbers, rounding error of
    binary floating point is not modelled.
  \<^item> Library calls (language detection, the NLTK tokenizer, the VADER analyzer, PDF text
    extraction, \<^verbatim>\<open>datetime.fromisoformat\<close>) are parameters; a call that the source wraps
    in \<^verbatim>\<open>try/except\<close> returns an \<open>option\<close>, \<open>None\<close> standing for the exception.
  \<^item> An exception that the source does not catch is the left injection of a sum.
\<close>

subsection \<open>Characters and strings\<close>

definition code_point :: "char \<Rightarrow> nat" where
  "code_point c = of_char c"

text \<open>\<^verbatim>\<open>\d\<close>: the decimal digits; on Latin-1 these are \<^verbatim>\<open>0-9\<close> only.\<close>

definition is_digit :: "char \<Rightarrow> bool" where
  "is_digit c = (48 \<le> code_point c \<and> code_point c \<le> 57)"

text \<open>\<^verbatim>\<open>\s\<close> and \<^verbatim>\<open>str.isspace\<close>: 9-13, 28-32, 133 and 160.\<close>

definition is_space :: "char \<Rightarrow> bool" where
  "is_space c = (let n = code_point c in
     (9 \<le> n \<and> n \<le> 13) \<or> (28 \<le> n \<and> n \<le> 32) \<or> n = 133 \<or> n = 160)"

text \<open>\<^verbatim>\<open>\w\<close>: alphanumeric characters and the underscore.\<close>

definition is_word :: "char \<Rightarrow> bool" where
  "is_word c = (let n = code_point c in
     (48 \<le> n \<and> n \<le> 57) \<or> (65 \<le> n \<and> n \<le> 90) \<or> n = 95 \<or> (97 \<le> n \<and> n \<le> 122) \<or>
     n = 170 \<or> n = 178 \<or> n = 179 \<or> n = 181 \<or> n = 185 \<or> n = 186 \<or>
     (188 \<le> n \<and> n \<le> 190) \<or> (192 \<le> n \<and> n \<le> 214) \<or> (216 \<le> n \<and> n \<le> 246) \<or>
     (248 \<le> n \<and> n \<le> 255))"

text \<open>The letter class of the date patterns: \<^verbatim>\<open>A-Z\<close>, \<^verbatim>\<open>a-z\<close> and the six German umlauts
  (code points 228, 246, 252, 196, 214, 220).\<close>

definition is_name_letter :: "char \<Rightarrow> bool" where
  "is_name_letter c = (let n = code_point c in
     (65 \<le> n \<and> n \<le> 90) \<or> (97 \<le> n \<and> n \<le> 122) \<or>
     n = 228 \<or> n = 246 \<or> n = 252 \<or> n = 196 \<or> n = 214 \<or> n = 220)"

text \<open>The class \<^verbatim>\<open>[.\-\/]\<close>.\<close>

definition is_date_sep :: "char \<Rightarrow> bool" where
  "is_date_sep c = (c = CHR ''.'' \<or> c = CHR ''-'' \<or> c = CHR ''/'')"

text \<open>The class \<^verbatim>\<open>[.!?]\<close>.\<close>

definition is_sentence_end :: "char \<Rightarrow> bool" where
  "is_sentence_end c = (c = CHR ''.'' \<or> c = CHR ''!'' \<or> c = CHR ''?'')"

text \<open>\<^verbatim>\<open>str.lower\<close>: the upper-case letters are 65-90 and 192-222 without 215, each 32
  below its lower-case form.\<close>

definition lower_char :: "char \<Rightarrow> char" where
  "lower_char c = (let n = code_point c in
     if (65 \<le> n \<and> n \<le> 90) \<or> (192 \<le> n \<and> n \<le> 222 \<and> n \<noteq> 215) then char_of (n + 32) else c)"

definition lower :: "string \<Rightarrow> string" where
  "lower s = map lower_char s"

definition strip :: "string \<Rightarrow> string" where
  "strip s = rev (dropWhile is_space (rev (dropWhile is_space s)))"

text \<open>\<^verbatim>\<open>int(...)\<close> on a string of decimal digits.\<close>

definition int_of_digits :: "string \<Rightarrow> nat" where
  "int_of_digits s = foldl (\<lambda>a c. 10 * a + (code_point c - 48)) 0 s"

text \<open>\<^verbatim>\<open>sep.join(xs)\<close>.\<close>

fun join :: "string \<Rightarrow> string list \<Rightarrow> string" where
  "join sep [] = []"
| "join sep [x] = x"
| "join sep (x # y # ys) = x @ sep @ join sep (y # ys)"

subsection \<open>The fragment of Python's \<^verbatim>\<open>re\<close> that the source uses\<close>

text \<open>
  Patterns are built from literals, a character class with a greedy bounded repetition
  (\<^verbatim>\<open>\d{2}\<close>, \<^verbatim>\<open>\d{1,2}\<close>, \<^verbatim>\<open>\s+\<close>, \<^verbatim>\<open>\s*\<close>, \<^verbatim>\<open>[...]+\<close>), sequence, alternation,
  numbered groups, the word boundary \<^verbatim>\<open>\b\<close> and a one-character look-behind.
  \<open>rmatch\<close> is a backtracking matcher in continuation style: it tries the alternatives in
  the order of the \<^verbatim>\<open>re\<close> module (longest repetition first, left alternative first) and
  returns the first one that the continuation accepts.
\<close>

datatype rx =
    Lit string
  | Cls "char \<Rightarrow> bool" nat "nat option"
  | Seq rx rx
  | Alt rx rx
  | Grp nat rx
  | WordB
  | Behind "char \<Rightarrow> bool"

type_synonym caps = "nat \<Rightarrow> (nat \<times> nat) option"

record rmatch_result =
  m_start :: nat
  m_end :: nat
  m_groups :: caps

fun try_down :: "nat \<Rightarrow> nat \<Rightarrow> (nat \<Rightarrow> 'a option) \<Rightarrow> 'a option" where
  "try_down n lo k =
     (if n < lo then None
      else case k n of
             Some r \<Rightarrow> Some r
           | None \<Rightarrow> (case n of 0 \<Rightarrow> None | Suc m \<Rightarrow> try_down m lo k))"

definition word_at :: "string \<Rightarrow> nat \<Rightarrow> bool" where
  "word_at s i = (i < length s \<and> is_word (s ! i))"

definition boundary :: "string \<Rightarrow> nat \<Rightarrow> bool" where
  "boundary s i = ((0 < i \<and> word_at s (i - 1)) \<noteq> word_at s i)"

fun rmatch :: "rx \<Rightarrow> string \<Rightarrow> nat \<Rightarrow> caps \<Rightarrow> (nat \<Rightarrow> caps \<Rightarrow> 'a option) \<Rightarrow> 'a option" where
  "rmatch (Lit w) s i c k =
     (if take (length w) (drop i s) = w then k (i + length w) c else None)"
| "rmatch (Cls P lo hi) s i c k =
     (let n = length (takeWhile P (drop i s));
          m = (case hi of None \<Rightarrow> n | Some h \<Rightarrow> min n h)
      in try_down m lo (\<lambda>j. k (i + j) c))"
| "rmatch (Seq a b) s i c k = rmatch a s i c (\<lambda>j c'. rmatch b s j c' k)"
| "rmatch (Alt a b) s i c k =
     (case rmatch a s i c k of Some r \<Rightarrow> Some r | None \<Rightarrow> rmatch b s i c k)"
| "rmatch (Grp g r) s i c k = rmatch r s i c (\<lambda>j c'. k j (c'(g \<mapsto> (i, j))))"
| "rmatch WordB s i c k = (if boundary s i then k i c else None)"
| "rmatch (Behind P) s i c k =
     (if 0 < i \<and> i - 1 < length s \<and> P (s ! (i - 1)) then k i c else None)"

definition match_at :: "rx \<Rightarrow> string \<Rightarrow> nat \<Rightarrow> rmatch_result option" where
  "match_at r s i =
     rmatch r s i Map.empty (\<lambda>j c. Some \<lparr>m_start = i, m_end = j, m_groups = c\<rparr>)"

fun first_some :: "('a \<Rightarrow> 'b option) \<Rightarrow> 'a list \<Rightarrow> 'b option" where
  "first_some f [] = None"
| "first_some f (x # xs) = (case f x of Some r \<Rightarrow> Some r | None \<Rightarrow> first_some f xs)"

text \<open>\<^verbatim>\<open>pattern.search(s, pos)\<close>: the match at the leftmost start position from \<open>pos\<close> on.\<close>

definition re_search_from :: "rx \<Rightarrow> string \<Rightarrow> nat \<Rightarrow> rmatch_result option" where
  "re_search_from r s pos = first_some (match_at r s) [pos ..< Suc (length s)]"

text \<open>\<^verbatim>\<open>re.search(pattern, s)\<close>.\<close>

definition re_search :: "rx \<Rightarrow> string \<Rightarrow> rmatch_result option" where
  "re_search r s = re_search_from r s 0"

text \<open>\<^verbatim>\<open>m.group(g)\<close>; every group of the patterns below takes part in every match.\<close>

definition group :: "string \<Rightarrow> rmatch_result \<Rightarrow> nat \<Rightarrow> string" where
  "group s m g = (case m_groups m g of None \<Rightarrow> [] | Some (a, b) \<Rightarrow> take (b - a) (drop a s))"

text \<open>\<^verbatim>\<open>re.split(pattern, s)\<close> for a pattern without groups whose matches are not empty:
  the pieces between successive matches.\<close>

function re_split_from :: "rx \<Rightarrow> string \<Rightarrow> nat \<Rightarrow> string list" where
  "re_split_from r s pos =
     (case re_search_from r s pos of
        None \<Rightarrow> [drop pos s]
      | Some m \<Rightarrow>
          if pos < m_end m \<and> m_end m \<le> length s
          then take (m_start m - pos) (drop pos s) # re_split_from r s (m_end m)
          else [drop pos s])"
  by pat_completeness auto
termination
  by (relation "measure (\<lambda>(r, s, pos). length s - pos)") auto

definition re_split :: "rx \<Rightarrow> string \<Rightarrow> string list" where
  "re_split r s = re_split_from r s 0"

subsection \<open>Date helpers\<close>

text \<open>A \<^verbatim>\<open>datetime\<close>, reduced to its date: the source reads only \<^verbatim>\<open>.year\<close> and
  \<^verbatim>\<open>.month\<close>.\<close>

record datetime =
  year :: nat
  month :: nat
  day :: nat

datatype error = ValueError

definition is_leap :: "nat \<Rightarrow> bool" where
  "is_leap y = (y mod 4 = 0 \<and> (y mod 100 \<noteq> 0 \<or> y mod 400 = 0))"

definition days_in_month :: "nat \<Rightarrow> nat \<Rightarrow> nat" where
  "days_in_month y m =
     (if m = 2 then (if is_leap y then 29 else 28)
      else if m = 4 \<or> m = 6 \<or> m = 9 \<or> m = 11 then 30 else 31)"

text \<open>The constructor \<^verbatim>\<open>datetime(y, m, d)\<close>; \<open>None\<close> is its \<^verbatim>\<open>ValueError\<close>.\<close>

definition mk_datetime :: "nat \<Rightarrow> nat \<Rightarrow> nat \<Rightarrow> datetime option" where
  "mk_datetime y m d =
     (if 1 \<le> y \<and> y \<le> 9999 \<and> 1 \<le> m \<and> m \<le> 12 \<and> 1 \<le> d \<and> d \<le> days_in_month y m
      then Some \<lparr>year = y, month = m, day = d\<rparr> else None)"

definition MONTHS_DE :: "(string \<times> nat) list" where
  "MONTHS_DE =
     [(''januar'', 1), (''februar'', 2), (''m'' @ [CHR 0xE4] @ ''rz'', 3), (''maerz'', 3),
      (''april'', 4), (''mai'', 5), (''juni'', 6), (''juli'', 7), (''august'', 8),
      (''september'', 9), (''oktober'', 10), (''november'', 11), (''dezember'', 12)]"

definition MONTHS_EN :: "(string \<times> nat) list" where
  "MONTHS_EN =
     [(''january'', 1), (''february'', 2), (''march'', 3), (''april'', 4), (''may'', 5),
      (''june'', 6), (''july'', 7), (''august'', 8), (''september'', 9), (''october'', 10),
      (''november'', 11), (''december'', 12)]"

text \<open>\<^verbatim>\<open>MONTHS_EN.get(mon) or MONTHS_DE.get(mon)\<close>, followed by \<^verbatim>\<open>if monnum\<close>: a falsy
  value (a missing key, or 0) counts as no month.\<close>

definition month_number :: "string \<Rightarrow> nat option" where
  "month_number mon =
     (let monnum = (case map_of MONTHS_EN mon of
                      Some n \<Rightarrow> if n \<noteq> 0 then Some n else map_of MONTHS_DE mon
                    | None \<Rightarrow> map_of MONTHS_DE mon)
      in case monnum of Some n \<Rightarrow> if n \<noteq> 0 then Some n else None | None \<Rightarrow> None)"

text \<open>\<^verbatim>\<open>20\d{2}\<close>.\<close>

definition year_digits :: rx where
  "year_digits = Seq (Lit ''20'') (Cls is_digit 2 (Some 2))"








text \<open>The patterns of \<^verbatim>\<open>_find_date_in_text\<close>: line 106, line 109 (built from the digits
  of the year found), line 115.\<close>

definition year_rx :: rx where
  "year_rx = Grp 1 year_digits"

definition name_year_rx :: "string \<Rightarrow> rx" where
  "name_year_rx y = Seq (Grp 1 (Cls is_name_letter 1 None)) (Seq (Cls is_space 1 None) (Lit y))"

definition year_month_rx :: rx where
  "year_month_rx =
     Seq year_digits (Seq (Cls is_date_sep 1 (Some 1)) (Grp 1 (Cls is_digit 1 (Some 2))))"

text \<open>\<^verbatim>\<open>_find_date_in_text\<close>. The two \<^verbatim>\<open>datetime(...)\<close> calls outside a \<^verbatim>\<open>try\<close>
  (lines 114 and 121) raise into the caller.\<close>

definition find_date_in_text :: "string \<Rightarrow> error + datetime option" where
  "find_date_in_text text =
     (if text = [] then Inr None
      else case re_search year_rx text of
        None \<Rightarrow> Inr None
      | Some m \<Rightarrow>
          let year = int_of_digits (group text m 1);
              by_name = (case re_search (name_year_rx (group text m 1)) text of
                           None \<Rightarrow> None
                         | Some m2 \<Rightarrow> month_number (lower (group text m2 1)))
          in case by_name of
               Some monnum \<Rightarrow>
                 (case mk_datetime year monnum 1 of
                    Some d \<Rightarrow> Inr (Some d) | None \<Rightarrow> Inl ValueError)
             | None \<Rightarrow>
                 (case (case re_search year_month_rx text of
                          None \<Rightarrow> None
                        | Some m3 \<Rightarrow> mk_datetime year (int_of_digits (group text m3 1)) 1) of
                    Some d \<Rightarrow> Inr (Some d)
                  | None \<Rightarrow>
                     (case mk_datetime year 1 1 of
                        Some d \<Rightarrow> Inr (Some d) | None \<Rightarrow> Inl ValueError)))"

subsection \<open>AI-relevance filter\<close>

definition AI_KEYWORDS_EN :: "string list" where
  "AI_KEYWORDS_EN =
     [''artificial intelligence'', ''ai'', ''machine learning'', ''deep learning'',
      ''neural network'', ''nlp'', ''natural language processing'', ''computer vision'',
      ''generative ai'', ''foundation model'', ''large language model'', ''llm'']"

definition AI_KEYWORDS_DE :: "string list" where
  "AI_KEYWORDS_DE =
     [''k'' @ [CHR 0xFC] @ ''nstliche intelligenz'', ''ki'', ''maschinelles lernen'',
      ''deep learning'', ''neuronales netz'', ''nlp'',
      ''nat'' @ [CHR 0xFC] @ ''rliche sprachverarbeitung'', ''computer vision'',
      ''generative ki'', ''foundation model'', ''gro'' @ [CHR 0xDF] @ ''es sprachmodell'',
      ''llm'']"

definition MIN_SENTENCE_LEN :: nat where
  "MIN_SENTENCE_LEN = 20"

text \<open>\<^verbatim>\<open>lang and lang.startswith("de")\<close>.\<close>

definition is_de :: "string \<Rightarrow> bool" where
  "is_de lang = (lang \<noteq> [] \<and> prefix ''de'' lang)"

text \<open>The loop \<^verbatim>\<open>for k in keys: if k in s: return True\<close>; \<^verbatim>\<open>k in s\<close> on strings is the
  substring test.\<close>

fun any_key_in :: "string list \<Rightarrow> string \<Rightarrow> bool" where
  "any_key_in [] s = False"
| "any_key_in (k # ks) s = (if sublist k s then True else any_key_in ks s)"

definition sentence_mentions_ai :: "string \<Rightarrow> string \<Rightarrow> bool" where
  "sentence_mentions_ai sentence lang =
     (let s = lower sentence;
          keys = (if is_de lang then AI_KEYWORDS_DE else AI_KEYWORDS_EN)
      in any_key_in keys s)"

text \<open>The library collaborators of the pipeline.\<close>

record env =
  detect :: "string \<Rightarrow> string option"
  sent_tokenize :: "string \<Rightarrow> string \<Rightarrow> string list option"
  polarity_compound :: "string \<Rightarrow> real"
  pdf_extract_text :: "string \<Rightarrow> string option"

definition detect_lang :: "env \<Rightarrow> string \<Rightarrow> string" where
  "detect_lang e text = (case detect e text of Some l \<Rightarrow> l | None \<Rightarrow> ''unknown'')"

text \<open>The fallback pattern of \<^verbatim>\<open>split_sentences\<close>: white space after a sentence end.\<close>

definition sentence_gap_rx :: rx where
  "sentence_gap_rx = Seq (Behind is_sentence_end) (Cls is_space 1 None)"

definition split_sentences :: "env \<Rightarrow> string \<Rightarrow> string \<Rightarrow> string list" where
  "split_sentences e text lang =
     (case sent_tokenize e text (if is_de lang then ''german'' else ''english'') of
        Some sents \<Rightarrow> sents
      | None \<Rightarrow> map strip (filter (\<lambda>s. strip s \<noteq> []) (re_split sentence_gap_rx text)))"

text \<open>The loop of \<^verbatim>\<open>extract_ai_sentences\<close> over the sentences.\<close>

fun keep_ai_sentences :: "string \<Rightarrow> string list \<Rightarrow> (string \<times> string) list" where
  "keep_ai_sentences lang [] = []"
| "keep_ai_sentences lang (s # sents) =
     (if length s < MIN_SENTENCE_LEN then keep_ai_sentences lang sents
      else if sentence_mentions_ai s lang then (lang, strip s) # keep_ai_sentences lang sents
      else keep_ai_sentences lang sents)"

definition extract_ai_sentences :: "env \<Rightarrow> string \<Rightarrow> (string \<times> string) list" where
  "extract_ai_sentences e text =
     (let lang = detect_lang e text; sents = split_sentences e text lang
      in keep_ai_sentences lang sents)"

subsection \<open>Sentence scoring\<close>

definition GERMAN_LEXICON :: "(string \<times> real) list" where
  "GERMAN_LEXICON =
     [(''gut'', 2.0), (''positiv'', 1.5), (''erfolgreich'', 1.5), (''stark'', 1.0),
      (''st'' @ [CHR 0xE4] @ ''rken'', 1.0), (''verbessert'', 1.2),
      (''schwach'', -1.0), (''problem'', -1.5), (''kritisch'', -1.5), (''fehler'', -1.5),
      (''risiko'', -1.5), (''negativ'', -1.5), (''verlust'', -1.5)]"

text \<open>\<^verbatim>\<open>r'\b' + re.escape(w) + r'\b'\<close>; escaping leaves a word of the lexicon a literal.\<close>

definition word_rx :: "string \<Rightarrow> rx" where
  "word_rx w = Seq WordB (Seq (Lit w) WordB)"

text \<open>\<^verbatim>\<open>\b(nicht|kein|keine|nie|ohne)\b\<close>.\<close>

definition negation_rx :: rx where
  "negation_rx =
     Seq WordB
      (Seq (Grp 1 (Alt (Lit ''nicht'') (Alt (Lit ''kein'') (Alt (Lit ''keine'')
              (Alt (Lit ''nie'') (Lit ''ohne'')))))) WordB)"

definition lexicon_step :: "string \<Rightarrow> real \<Rightarrow> string \<times> real \<Rightarrow> real" where
  "lexicon_step s score wv =
     (if re_search (word_rx (fst wv)) s \<noteq> None then score + snd wv else score)"

text \<open>The German branch of \<^verbatim>\<open>score_sentence\<close> up to the normalisation (lines 297-303): the
  sum of the weights of the lexicon words found, negated when a negation token is found.\<close>

definition german_raw :: "string \<Rightarrow> real" where
  "german_raw sentence =
     (let s = lower sentence;
          score = foldl (lexicon_step s) 0 GERMAN_LEXICON
      in if re_search negation_rx s \<noteq> None then - score else score)"

definition score_sentence :: "env \<Rightarrow> string \<Rightarrow> string \<Rightarrow> real" where
  "score_sentence e lang sentence =
     (if is_de lang then
        let score = german_raw sentence
        in if score > 0 then min (score / 3.0) 1.0
           else if score < 0 then max (score / 3.0) (- 1.0)
           else 0.0
      else polarity_compound e sentence)"

subsection \<open>Labels and aggregation\<close>

datatype label = Positive | Neutral | Negative

definition SENTIMENT_THRESHOLDS :: "label \<Rightarrow> real" where
  "SENTIMENT_THRESHOLDS l = (case l of Positive \<Rightarrow> 0.05 | Negative \<Rightarrow> - 0.05 | Neutral \<Rightarrow> 0)"

definition label_from_score :: "real \<Rightarrow> label \<times> real" where
  "label_from_score score =
     (if score \<ge> SENTIMENT_THRESHOLDS Positive then (Positive, score)
      else if score \<le> SENTIMENT_THRESHOLDS Negative then (Negative, score)
      else (Neutral, score))"

record aggregate =
  label :: label
  score :: real
  confidence :: real
  count :: nat

definition aggregate_release :: "real list \<Rightarrow> aggregate" where
  "aggregate_release scores =
     (if scores = [] then \<lparr>label = Neutral, score = 0.0, confidence = 0.0, count = 0\<rparr>
      else
        let avg = sum_list scores / real (length scores);
            non_neutral = sum_list (map (\<lambda>s. 1 :: nat) (filter (\<lambda>s. \<bar>s\<bar> > 0.05) scores));
            conf = real non_neutral / real (length scores);
            lbl = fst (label_from_score avg)
        in \<lparr>label = lbl, score = avg, confidence = conf, count = length scores\<rparr>)"

subsection \<open>Runner\<close>

record ReleaseItem =
  url :: string
  title :: string
  item_text :: "string option"
  publish_date :: "datetime option"
  company :: "string option"
  local :: bool

record OutputRow =
  row_company :: string
  row_title :: string
  row_url :: string
  row_year :: "nat option"
  row_month :: "nat option"
  row_label :: label
  row_score :: real
  row_confidence :: real
  ai_sentence_count :: nat
  example_positive :: string
  example_neutral :: string
  example_negative :: string

text \<open>The truth value of an optional string: absent and empty are both false.\<close>

definition or_empty :: "string option \<Rightarrow> string" where
  "or_empty t = (case t of None \<Rightarrow> [] | Some s \<Rightarrow> s)"

definition ensure_text :: "env \<Rightarrow> ReleaseItem \<Rightarrow> ReleaseItem" where
  "ensure_text e item =
     (if or_empty (item_text item) \<noteq> [] then item
      else if suffix ''.pdf'' (lower (url item)) \<or>
              (local item \<and> suffix ''.pdf'' (lower (url item))) then
        (case pdf_extract_text e (url item) of
           Some txt \<Rightarrow> item\<lparr>item_text := Some txt\<rparr>
         | None \<Rightarrow> item\<lparr>item_text := Some []\<rparr>)
      else item\<lparr>item_text := Some []\<rparr>)"

text \<open>\<^verbatim>\<open>extract_year_month\<close>; \<open>None\<close> is the pair of empty strings.\<close>

definition extract_year_month ::
  "datetime option \<Rightarrow> string \<Rightarrow> string \<Rightarrow> string \<Rightarrow> error + (nat \<times> nat) option" where
  "extract_year_month pd txt ttl u =
     (case pd of
        Some d \<Rightarrow> Inr (Some (year d, month d))
      | None \<Rightarrow>
         (case find_date_in_text txt of
            Inl err \<Rightarrow> Inl err
          | Inr (Some d) \<Rightarrow> Inr (Some (year d, month d))
          | Inr None \<Rightarrow>
             (case find_date_in_text ttl of
                Inl err \<Rightarrow> Inl err
              | Inr (Some d) \<Rightarrow> Inr (Some (year d, month d))
              | Inr None \<Rightarrow>
                 (case find_date_in_text u of
                    Inl err \<Rightarrow> Inl err
                  | Inr (Some d) \<Rightarrow> Inr (Some (year d, month d))
                  | Inr None \<Rightarrow> Inr None))))"

text \<open>\<^verbatim>\<open>round(x, n)\<close>: to the nearest multiple of \<open>10\<^sup>-\<^sup>n\<close>, a tie to the even one.\<close>

definition py_round :: "real \<Rightarrow> nat \<Rightarrow> real" where
  "py_round x n =
     (let y = x * 10 ^ n; f = \<lfloor>y\<rfloor>; d = y - of_int f
      in of_int (if d < 1 / 2 then f else if d > 1 / 2 then f + 1
                 else if even f then f else f + 1) / 10 ^ n)"

text \<open>The inner loop of \<^verbatim>\<open>run_pipeline\<close> (lines 373-378): the state is the list of
  scores and the three example buckets.\<close>

fun score_loop ::
  "env \<Rightarrow> (string \<times> string) list \<Rightarrow> real list \<times> (label \<Rightarrow> string list) \<Rightarrow>
   real list \<times> (label \<Rightarrow> string list)" where
  "score_loop e [] st = st"
| "score_loop e ((lang, sent) # rest) (sent_scores, examples) =
     (let sc = score_sentence e lang sent;
          lbl = fst (label_from_score sc);
          sent_scores' = sent_scores @ [sc];
          examples' = (if length (examples lbl) < 3
                       then examples(lbl := examples lbl @ [sent]) else examples)
      in score_loop e rest (sent_scores', examples'))"

text \<open>The body of the outer loop: \<open>Inr None\<close> is \<^verbatim>\<open>continue\<close>, \<open>Inr (Some row)\<close> is
  \<^verbatim>\<open>rows.append(row)\<close>.\<close>

definition process_release :: "env \<Rightarrow> ReleaseItem \<Rightarrow> error + OutputRow option" where
  "process_release e r0 =
     (let r = ensure_text e r0; txt = or_empty (item_text r) in
      if txt = [] \<or> length txt < 50 then Inr None
      else
        let ai_sents = extract_ai_sentences e txt;
            (sent_scores, examples) = score_loop e ai_sents ([], \<lambda>l. []);
            agg = aggregate_release sent_scores
        in case extract_year_month (publish_date r) txt (title r) (url r) of
             Inl err \<Rightarrow> Inl err
           | Inr ym \<Rightarrow>
               Inr (Some
                 \<lparr>row_company = or_empty (company r),
                  row_title = title r,
                  row_url = url r,
                  row_year = map_option fst ym,
                  row_month = map_option snd ym,
                  row_label = label agg,
                  row_score = py_round (score agg) 4,
                  row_confidence = py_round (confidence agg) 3,
                  ai_sentence_count = count agg,
                  example_positive = join '' | '' (examples Positive),
                  example_neutral = join '' | '' (examples Neutral),
                  example_negative = join '' | '' (examples Negative)\<rparr>))"

fun pipeline_loop :: "env \<Rightarrow> ReleaseItem list \<Rightarrow> OutputRow list \<Rightarrow> error + OutputRow list" where
  "pipeline_loop e [] rows = Inr rows"
| "pipeline_loop e (r # rs) rows =
     (case process_release e r of
        Inl err \<Rightarrow> Inl err
      | Inr None \<Rightarrow> pipeline_loop e rs rows
      | Inr (Some row) \<Rightarrow> pipeline_loop e rs (rows @ [row]))"

text \<open>\<^verbatim>\<open>run_pipeline\<close> up to the rows it collects; \<open>releases\<close> is the result of
  \<^verbatim>\<open>collect_press_releases()\<close>.\<close>

definition run_pipeline :: "env \<Rightarrow> ReleaseItem list \<Rightarrow> error + OutputRow list" where
  "run_pipeline e releases = pipeline_loop e releases []"

section \<open>Notions used to state the properties\<close>

text \<open>An environment in which every library call fails or returns zero; it gives the
  closed instances below something to run on.\<close>

definition no_library :: env where
  "no_library = \<lparr>detect = (\<lambda>t. None), sent_tokenize = (\<lambda>t l. None),
                  polarity_compound = (\<lambda>s. 0), pdf_extract_text = (\<lambda>u. None)\<rparr>"

text \<open>The same environment with a PDF extraction that succeeds and returns a text of 66
  characters.\<close>

definition pdf_library :: env where
  "pdf_library = no_library\<lparr>pdf_extract_text :=
     (\<lambda>u. Some ''Die KI ist gut und stark. Dieser Text stammt aus einer PDF-Datei.'')\<rparr>"

text \<open>A whole-word occurrence, in plain terms: \<open>w\<close> stands at position \<open>i\<close> of \<open>s\<close>, the
  character before it (if any) is not a word character and neither is the one after it.\<close>

definition whole_word_at :: "string \<Rightarrow> string \<Rightarrow> nat \<Rightarrow> bool" where
  "whole_word_at w s i =
     (take (length w) (drop i s) = w \<and> \<not> (0 < i \<and> word_at s (i - 1)) \<and>
      \<not> word_at s (i + length w))"

definition whole_word :: "string \<Rightarrow> string \<Rightarrow> bool" where
  "whole_word w s = (\<exists>i \<in> set [0 ..< Suc (length s)]. whole_word_at w s i)"

definition NEGATION_TOKENS :: "string list" where
  "NEGATION_TOKENS = [''nicht'', ''kein'', ''keine'', ''nie'', ''ohne'']"

text \<open>The AI-relevance test in the words of the specification: at least 20 characters, and
  some keyword of the language's set is a substring of the lower-cased sentence.\<close>

definition keywords_for :: "string \<Rightarrow> string list" where
  "keywords_for lang = (if is_de lang then AI_KEYWORDS_DE else AI_KEYWORDS_EN)"

definition ai_relevant :: "string \<Rightarrow> string \<Rightarrow> bool" where
  "ai_relevant lang s =
     (20 \<le> length s \<and> (\<exists>k \<in> set (keywords_for lang). sublist k (lower s)))"

text \<open>The label of one (language, sentence) pair, and the texts of the pairs of label \<open>l\<close>
  in their original order.\<close>

definition sentence_label :: "env \<Rightarrow> string \<times> string \<Rightarrow> label" where
  "sentence_label e ls = fst (label_from_score (score_sentence e (fst ls) (snd ls)))"

definition labelled :: "env \<Rightarrow> label \<Rightarrow> (string \<times> string) list \<Rightarrow> string list" where
  "labelled e l ai_sents = map snd (filter (\<lambda>ls. sentence_label e ls = l) ai_sents)"

text \<open>The date search in plain terms. \<open>year_at t i\<close>: the text reads \<^verbatim>\<open>20\<close> and two digits at
  position \<open>i\<close>. \<open>first_year\<close>: the leftmost such position.\<close>

definition year_at :: "string \<Rightarrow> nat \<Rightarrow> bool" where
  "year_at t i =
     (i + 4 \<le> length t \<and> t ! i = CHR ''2'' \<and> t ! (i + 1) = CHR ''0'' \<and>
      is_digit (t ! (i + 2)) \<and> is_digit (t ! (i + 3)))"

definition positions :: "string \<Rightarrow> nat list" where
  "positions t = [0 ..< Suc (length t)]"

definition first_year :: "string \<Rightarrow> nat option" where
  "first_year t = find (year_at t) (positions t)"

text \<open>\<open>name_before y t j\<close>: the run of letters that starts at position \<open>j\<close>, when it is not
  empty and is followed by white space and then by the digits \<open>y\<close>.\<close>

definition name_before :: "string \<Rightarrow> string \<Rightarrow> nat \<Rightarrow> string option" where
  "name_before y t j =
     (let w = takeWhile is_name_letter (drop j t);
          rest = drop (j + length w) t;
          ws = takeWhile is_space rest
      in if w \<noteq> [] \<and> ws \<noteq> [] \<and> prefix y (drop (length ws) rest) then Some w else None)"

text \<open>\<open>month_digits_at t i\<close>: a year at position \<open>i\<close>, a separator and at least one digit;
  the result is the first two digits, or the only one.\<close>

definition month_digits_at :: "string \<Rightarrow> nat \<Rightarrow> string option" where
  "month_digits_at t i =
     (if year_at t i \<and> i + 4 < length t \<and> is_date_sep (t ! (i + 4)) \<and>
         takeWhile is_digit (drop (i + 5) t) \<noteq> []
      then Some (take 2 (takeWhile is_digit (drop (i + 5) t))) else None)"

text \<open>The month by name: at the leftmost place of the whole text where letters, white space
  and the digits \<open>y\<close> follow one another, the letters are looked up as a month name.\<close>

definition named_month :: "string \<Rightarrow> string \<Rightarrow> nat option" where
  "named_month y t =
     (case first_some (name_before y t) (positions t) of
        None \<Rightarrow> None
      | Some w \<Rightarrow> month_number (lower w))"

text \<open>The month by number: at the leftmost place where a year, a separator and digits follow
  one another, the digits when they are a number from 1 to 12.\<close>

definition numbered_month :: "string \<Rightarrow> nat option" where
  "numbered_month t =
     (case first_some (month_digits_at t) (positions t) of
        None \<Rightarrow> None
      | Some ds \<Rightarrow>
          if 1 \<le> int_of_digits ds \<and> int_of_digits ds \<le> 12 then Some (int_of_digits ds)
          else None)"

text \<open>What \<^verbatim>\<open>_find_date_in_text\<close> computes, in these terms.\<close>

definition date_in_text :: "string \<Rightarrow> datetime option" where
  "date_in_text t =
     (case first_year t of
        None \<Rightarrow> None
      | Some p \<Rightarrow>
          let y = take 4 (drop p t)
          in Some \<lparr>year = int_of_digits y,
                   month = (case named_month y t of
                              Some k \<Rightarrow> k
                            | None \<Rightarrow> (case numbered_month t of Some k \<Rightarrow> k | None \<Rightarrow> 1)),
                   day = 1\<rparr>)"

text \<open>The date search as the specification words it: the month name is looked for
  immediately before the first occurrence of the year (letters, then white space, then
  position \<open>p\<close>), and nowhere else.\<close>

definition name_ending_before :: "string \<Rightarrow> nat \<Rightarrow> string option" where
  "name_ending_before t p =
     (let back = rev (take p t);
          ws = takeWhile is_space back;
          w = takeWhile is_name_letter (drop (length ws) back)
      in if ws \<noteq> [] \<and> w \<noteq> [] then Some (rev w) else None)"

definition stated_date_in_text :: "string \<Rightarrow> datetime option" where
  "stated_date_in_text t =
     (case first_year t of
        None \<Rightarrow> None
      | Some p \<Rightarrow>
          Some \<lparr>year = int_of_digits (take 4 (drop p t)),
                month = (case (case name_ending_before t p of
                                 None \<Rightarrow> None
                               | Some w \<Rightarrow> month_number (lower w)) of
                           Some k \<Rightarrow> k
                         | None \<Rightarrow> (case numbered_month t of Some k \<Rightarrow> k | None \<Rightarrow> 1)),
                day = 1\<rparr>)"

text \<open>A release is usable when the text it has after \<open>ensure_text\<close> has at least 50
  characters.\<close>

definition usable :: "env \<Rightarrow> ReleaseItem \<Rightarrow> bool" where
  "usable e r = (50 \<le> length (or_empty (item_text (ensure_text e r))))"





section \<open>Properties\<close>

subsection \<open>Labels and aggregation\<close>

lemma non_neutral_count:
  "sum_list (map (\<lambda>s. 1 :: nat) (filter P xs)) = length (filter P xs)"
  by (induction xs) simp_all

lemma label_from_score_fst:
  "fst (label_from_score x) =
     (if x \<ge> 0.05 then Positive else if x \<le> - 0.05 then Negative else Neutral)"
  by (simp add: label_from_score_def SENTIMENT_THRESHOLDS_def)

lemma label_from_score_snd: "snd (label_from_score x) = x"
  by (simp add: label_from_score_def)

lemma aggregate_release_Nil:
  "aggregate_release [] = \<lparr>label = Neutral, score = 0, confidence = 0, count = 0\<rparr>"
  by (simp add: aggregate_release_def)

lemma aggregate_release_nonempty:
  "scores \<noteq> [] \<Longrightarrow>
     aggregate_release scores =
       \<lparr>label = fst (label_from_score (sum_list scores / real (length scores))),
        score = sum_list scores / real (length scores),
        confidence = real (length (filter (\<lambda>s. \<bar>s\<bar> > 0.05) scores)) / real (length scores),
        count = length scores\<rparr>"
  by (simp only: aggregate_release_def Let_def non_neutral_count if_False)

lemma aggregate_label_rule:
  "label (aggregate_release scores) = fst (label_from_score (score (aggregate_release scores)))"
proof (cases "scores = []")
  case True
  then show ?thesis by (simp add: aggregate_release_Nil label_from_score_fst)
next
  case False
  then show ?thesis by (simp add: aggregate_release_nonempty)
qed

text \<open>
  Claim C6. For every score, \<open>label_from_score\<close> gives \<open>Positive\<close> when the score is at
  least 0.05, \<open>Negative\<close> when it is at most -0.05 and \<open>Neutral\<close> otherwise, and hands the
  score back; so 0.05 is positive, -0.05 is negative and 0.0 is neutral. The label of an
  aggregate is this rule on the aggregate's score, and the bucket that the sentence loop
  chooses for a sentence is this rule on the sentence's score.
\<close>

theorem label_from_score_thresholds:
  "fst (label_from_score x) =
     (if x \<ge> 0.05 then Positive else if x \<le> - 0.05 then Negative else Neutral)
   \<and> snd (label_from_score x) = x
   \<and> fst (label_from_score 0.05) = Positive
   \<and> fst (label_from_score (- 0.05)) = Negative
   \<and> fst (label_from_score 0.0) = Neutral
   \<and> label (aggregate_release scores) = fst (label_from_score (score (aggregate_release scores)))
   \<and> snd (score_loop e [(lang, sent)] ([], \<lambda>l. [])) =
       (\<lambda>l. if l = fst (label_from_score (score_sentence e lang sent)) then [sent] else [])"
proof -
  have "snd (score_loop e [(lang, sent)] ([], \<lambda>l. [])) =
       (\<lambda>l. if l = fst (label_from_score (score_sentence e lang sent)) then [sent] else [])"
    by (simp add: Let_def fun_eq_iff)
  moreover have "fst (label_from_score 0.05) = Positive" "fst (label_from_score (- 0.05)) = Negative"
     "fst (label_from_score 0.0) = Neutral"
    by (simp_all add: label_from_score_fst)
  ultimately show ?thesis
    using label_from_score_fst [of x] label_from_score_snd [of x] aggregate_label_rule [of scores]
    by blast
qed

theorem label_from_score_thresholds_witness:
  "fst (label_from_score (1/20)) = Positive \<and> fst (label_from_score (- 1/20)) = Negative
   \<and> fst (label_from_score (1/25)) = Neutral \<and> fst (label_from_score (- 1/25)) = Neutral"
proof -
  have "fst (label_from_score (1/20)) = Positive"
    using label_from_score_thresholds [of "1/20"] by simp
  moreover have "fst (label_from_score (- 1/20)) = Negative"
    using label_from_score_thresholds [of "- 1/20"] by simp
  moreover have "fst (label_from_score (1/25)) = Neutral"
    using label_from_score_thresholds [of "1/25"] by simp
  moreover have "fst (label_from_score (- 1/25)) = Neutral"
    using label_from_score_thresholds [of "- 1/25"] by simp
  ultimately show ?thesis by blast
qed

text \<open>
  Claim C1. \<open>aggregate_release\<close> of the empty list is neutral with score 0, confidence 0
  and count 0. Of a non-empty list it has the mean as score, the number of scores of
  absolute value above 0.05 divided by the number of scores as confidence, the label of
  the mean as label and the length as count. The confidence is always between 0 and 1.
\<close>

theorem aggregate_release_spec:
  "aggregate_release [] = \<lparr>label = Neutral, score = 0, confidence = 0, count = 0\<rparr>
   \<and> (scores \<noteq> [] \<longrightarrow>
        aggregate_release scores =
          \<lparr>label = fst (label_from_score (sum_list scores / real (length scores))),
           score = sum_list scores / real (length scores),
           confidence = real (length (filter (\<lambda>s. \<bar>s\<bar> > 0.05) scores)) / real (length scores),
           count = length scores\<rparr>)
   \<and> 0 \<le> confidence (aggregate_release scores)
   \<and> confidence (aggregate_release scores) \<le> 1"
proof -
  have range: "0 \<le> confidence (aggregate_release scores) \<and> confidence (aggregate_release scores) \<le> 1"
  proof (cases "scores = []")
    case True
    then show ?thesis by (simp add: aggregate_release_Nil)
  next
    case False
    have "real (length (filter (\<lambda>s. \<bar>s\<bar> > 0.05) scores)) \<le> real (length scores)"
      by simp
    moreover have "0 < real (length scores)"
      using False by simp
    ultimately have "real (length (filter (\<lambda>s. \<bar>s\<bar> > 0.05) scores)) / real (length scores) \<le> 1"
      by (simp only: divide_le_eq_1_pos)
    then show ?thesis
      using False by (simp add: aggregate_release_nonempty)
  qed
  show ?thesis
    using aggregate_release_Nil aggregate_release_nonempty [of scores] range by blast
qed

theorem aggregate_release_spec_witness:
  "[0.2, - 0.3, 0.0] \<noteq> ([] :: real list)
   \<and> aggregate_release [0.2, - 0.3, 0.0] =
       \<lparr>label = Neutral, score = - 1 / 30, confidence = 2 / 3, count = 3\<rparr>"
  using aggregate_release_spec [of "[0.2, - 0.3, 0.0]"]
  by (simp add: label_from_score_fst)

subsection \<open>The regular-expression searches of the scorer\<close>

lemma first_some_None_iff: "first_some f xs = None \<longleftrightarrow> (\<forall>x \<in> set xs. f x = None)"
  by (induction xs) (auto split: option.splits)

lemma re_search_None_iff:
  "re_search r s = None \<longleftrightarrow> (\<forall>i \<in> set [0 ..< Suc (length s)]. match_at r s i = None)"
  by (simp add: re_search_def re_search_from_def first_some_None_iff)

lemma match_at_word_rx:
  "match_at (word_rx w) s i = None \<longleftrightarrow>
     \<not> (boundary s i \<and> take (length w) (drop i s) = w \<and> boundary s (i + length w))"
  by (simp add: match_at_def word_rx_def)

lemma take_drop_eq_nth:
  assumes "take (length w) (drop i s) = w" "k < length w"
  shows "i + k < length s \<and> s ! (i + k) = w ! k"
proof -
  have "length (take (length w) (drop i s)) = length w"
    using assms(1) by simp
  then have len: "length w \<le> length s - i"
    by simp
  have "w ! k = take (length w) (drop i s) ! k"
    using assms(1) by simp
  also have "\<dots> = s ! (i + k)"
    using assms(2) len by simp
  finally show ?thesis using len assms(2) by simp
qed

lemma word_match_boundaries:
  assumes "w \<noteq> []" "is_word (hd w)" "is_word (last w)"
  shows "match_at (word_rx w) s i = None \<longleftrightarrow> \<not> whole_word_at w s i"
proof (cases "take (length w) (drop i s) = w")
  case False
  then show ?thesis by (simp add: match_at_word_rx whole_word_at_def)
next
  case True
  have l: "0 < length w" using assms(1) by simp
  have first: "word_at s i"
    using take_drop_eq_nth [OF True l] assms(2) l
    by (simp add: word_at_def hd_conv_nth)
  have "length w - 1 < length w" using l by simp
  from take_drop_eq_nth [OF True this]
  have lastc: "word_at s (i + length w - 1)"
    using assms(1,3) l by (simp add: word_at_def last_conv_nth)
  have "0 < i + length w" using l by simp
  then show ?thesis
    using True first lastc
    by (auto simp: match_at_word_rx whole_word_at_def boundary_def)
qed

lemma word_search_iff:
  assumes "w \<noteq> []" "is_word (hd w)" "is_word (last w)"
  shows "re_search (word_rx w) s = None \<longleftrightarrow> \<not> whole_word w s"
  using word_match_boundaries [OF assms]
  by (simp only: re_search_None_iff whole_word_def) blast

lemma bounded_literal:
  assumes "w \<noteq> []" "is_word (hd w)" "is_word (last w)"
  shows "(boundary s i \<and> take (length w) (drop i s) = w \<and> boundary s (i + length w))
         = whole_word_at w s i"
  using word_match_boundaries [OF assms, of s i] unfolding match_at_word_rx by blast

lemma negation_tokens_words:
  "\<forall>n \<in> set NEGATION_TOKENS. n \<noteq> [] \<and> is_word (hd n) \<and> is_word (last n)"
  by (simp add: NEGATION_TOKENS_def is_word_def code_point_def)

lemma lexicon_words:
  "\<forall>(w, v) \<in> set GERMAN_LEXICON. w \<noteq> [] \<and> is_word (hd w) \<and> is_word (last w)"
  by (simp add: GERMAN_LEXICON_def is_word_def code_point_def)

lemma lexicon_distinct: "distinct (map fst GERMAN_LEXICON)"
  by (simp add: GERMAN_LEXICON_def)

lemma match_at_negation_rx:
  "match_at negation_rx s i = None \<longleftrightarrow> (\<forall>n \<in> set NEGATION_TOKENS. \<not> whole_word_at n s i)"
proof -
  have tok: "\<And>n. n \<in> set NEGATION_TOKENS \<Longrightarrow>
      whole_word_at n s i = (boundary s i \<and> take (length n) (drop i s) = n \<and> boundary s (i + length n))"
    using negation_tokens_words bounded_literal by (metis (no_types, lifting))
  have "match_at negation_rx s i = None \<longleftrightarrow>
      (\<forall>n \<in> set NEGATION_TOKENS.
         \<not> (boundary s i \<and> take (length n) (drop i s) = n \<and> boundary s (i + length n)))"
    by (simp add: match_at_def negation_rx_def NEGATION_TOKENS_def split: option.splits)
  then show ?thesis using tok by simp
qed

lemma negation_search_iff:
  "re_search negation_rx s = None \<longleftrightarrow> \<not> (\<exists>n \<in> set NEGATION_TOKENS. whole_word n s)"
  by (simp only: re_search_None_iff match_at_negation_rx whole_word_def) blast

subsection \<open>Sentence scores\<close>

lemma foldl_no_hit:
  "(\<forall>wv \<in> set L. re_search (word_rx (fst wv)) s = None) \<Longrightarrow> foldl (lexicon_step s) a L = a"
  by (induction L arbitrary: a) (simp_all add: lexicon_step_def)

lemma foldl_one_hit:
  assumes "distinct (map fst L)" "(w, v) \<in> set L" "re_search (word_rx w) s \<noteq> None"
    and "\<forall>wv \<in> set L. fst wv \<noteq> w \<longrightarrow> re_search (word_rx (fst wv)) s = None"
  shows "foldl (lexicon_step s) a L = a + v"
  using assms
proof (induction L arbitrary: a)
  case Nil
  then show ?case by simp
next
  case (Cons x L)
  show ?case
  proof (cases "x = (w, v)")
    case True
    have "w \<notin> fst ` set L"
      using Cons.prems(1) True by simp
    have "\<forall>wv \<in> set L. re_search (word_rx (fst wv)) s = None"
    proof
      fix wv assume m: "wv \<in> set L"
      then have "fst wv \<in> fst ` set L" by simp
      with \<open>w \<notin> fst ` set L\<close> have "fst wv \<noteq> w" by auto
      then show "re_search (word_rx (fst wv)) s = None"
        using Cons.prems(4) m by simp
    qed
    then have "foldl (lexicon_step s) (a + v) L = a + v"
      by (rule foldl_no_hit)
    moreover have "lexicon_step s a x = a + v"
      using True Cons.prems(3) by (simp add: lexicon_step_def)
    ultimately show ?thesis by simp
  next
    case False
    then have mem: "(w, v) \<in> set L"
      using Cons.prems(2) by auto
    then have "w \<in> fst ` set L" by force
    then have "fst x \<noteq> w"
      using Cons.prems(1) by auto
    then have "lexicon_step s a x = a"
      using Cons.prems(4) by (simp add: lexicon_step_def)
    moreover have "foldl (lexicon_step s) a L = a + v"
      using Cons.IH [of a] Cons.prems mem by simp
    ultimately show ?thesis by simp
  qed
qed

lemma lexicon_hit_iff:
  "(w, v) \<in> set GERMAN_LEXICON \<Longrightarrow> (re_search (word_rx w) s = None) = (\<not> whole_word w s)"
  using lexicon_words word_search_iff by fastforce

lemma lexicon_sum_single:
  assumes "(w, v) \<in> set GERMAN_LEXICON" "whole_word w s"
    and "\<forall>(w', v') \<in> set GERMAN_LEXICON. w' \<noteq> w \<longrightarrow> \<not> whole_word w' s"
  shows "foldl (lexicon_step s) 0 GERMAN_LEXICON = v"
proof -
  have "re_search (word_rx w) s \<noteq> None"
    using assms(1,2) lexicon_hit_iff by simp
  moreover have "\<forall>wv \<in> set GERMAN_LEXICON. fst wv \<noteq> w \<longrightarrow> re_search (word_rx (fst wv)) s = None"
  proof
    fix wv assume m: "wv \<in> set GERMAN_LEXICON"
    then have "(fst wv, snd wv) \<in> set GERMAN_LEXICON" by simp
    from lexicon_hit_iff [OF this] assms(3) m
    show "fst wv \<noteq> w \<longrightarrow> re_search (word_rx (fst wv)) s = None" by fastforce
  qed
  ultimately show ?thesis
    using foldl_one_hit [OF lexicon_distinct assms(1), of s 0] by simp
qed

lemma german_raw_negated:
  assumes "\<exists>n \<in> set NEGATION_TOKENS. whole_word n (lower sentence)"
    and "(w, v) \<in> set GERMAN_LEXICON" "whole_word w (lower sentence)"
    and "\<forall>(w', v') \<in> set GERMAN_LEXICON. w' \<noteq> w \<longrightarrow> \<not> whole_word w' (lower sentence)"
  shows "german_raw sentence = - v"
  using lexicon_sum_single [OF assms(2,3,4)] assms(1)
  by (simp add: german_raw_def negation_search_iff)

lemma german_raw_plain:
  assumes "\<not> (\<exists>n \<in> set NEGATION_TOKENS. whole_word n (lower plain))"
    and "(w, v) \<in> set GERMAN_LEXICON" "whole_word w (lower plain)"
    and "\<forall>(w', v') \<in> set GERMAN_LEXICON. w' \<noteq> w \<longrightarrow> \<not> whole_word w' (lower plain)"
  shows "german_raw plain = v"
  using lexicon_sum_single [OF assms(2,3,4)] assms(1)
  by (simp add: german_raw_def negation_search_iff)

lemma score_of_raw:
  "is_de lang \<Longrightarrow> score_sentence e lang sentence =
     (let raw = german_raw sentence
      in if raw > 0 then min (raw / 3.0) 1.0 else if raw < 0 then max (raw / 3.0) (- 1.0) else 0.0)"
  by (simp add: score_sentence_def)

text \<open>
  Claim C2. Take a sentence scored on the German path whose lower-cased form contains one
  of the negation tokens as a whole word and exactly one word of the lexicon as a whole
  word, of positive weight \<open>v\<close>. Its score is \<open>- min (v / 3) 1\<close>. Any sentence with the
  same lexicon words and no negation token scores \<open>min (v / 3) 1\<close>, so the negated
  sentence has the sign-flipped score.
\<close>

theorem negated_single_positive_hit:
  assumes "is_de lang"
    and "\<exists>n \<in> set NEGATION_TOKENS. whole_word n (lower sentence)"
    and "(w, v) \<in> set GERMAN_LEXICON" and "0 < v" and "whole_word w (lower sentence)"
    and "\<forall>(w', v') \<in> set GERMAN_LEXICON. w' \<noteq> w \<longrightarrow> \<not> whole_word w' (lower sentence)"
  shows "score_sentence e lang sentence = - min (v / 3.0) 1.0
       \<and> (\<forall>plain.
            \<not> (\<exists>n \<in> set NEGATION_TOKENS. whole_word n (lower plain)) \<and>
            (\<forall>(w', v') \<in> set GERMAN_LEXICON.
               whole_word w' (lower plain) = whole_word w' (lower sentence))
            \<longrightarrow> score_sentence e lang plain = min (v / 3.0) 1.0
              \<and> score_sentence e lang sentence = - score_sentence e lang plain)"
proof -
  have neg: "score_sentence e lang sentence = - min (v / 3.0) 1.0"
    using assms(1,4) german_raw_negated [OF assms(2,3,5,6)]
    by (simp add: score_of_raw Let_def min_def max_def)
  have "score_sentence e lang plain = min (v / 3.0) 1.0"
    if np: "\<not> (\<exists>n \<in> set NEGATION_TOKENS. whole_word n (lower plain))"
      and same: "\<forall>(w', v') \<in> set GERMAN_LEXICON.
               whole_word w' (lower plain) = whole_word w' (lower sentence)" for plain
  proof -
    have h: "whole_word w (lower plain)"
      using same assms(3,5) by fastforce
    have o: "\<forall>(w', v') \<in> set GERMAN_LEXICON. w' \<noteq> w \<longrightarrow> \<not> whole_word w' (lower plain)"
      using same assms(6) by fastforce
    show ?thesis
      using assms(1,4) german_raw_plain [OF np assms(3) h o]
      by (simp add: score_of_raw Let_def)
  qed
  then show ?thesis using neg by simp
qed

theorem negated_single_positive_hit_witness:
  "is_de ''de''
   \<and> (\<exists>n \<in> set NEGATION_TOKENS. whole_word n (lower ''Das ist nicht gut.''))
   \<and> (''gut'', 2) \<in> set GERMAN_LEXICON \<and> whole_word ''gut'' (lower ''Das ist nicht gut.'')
   \<and> \<not> (\<exists>(w', v') \<in> set GERMAN_LEXICON. w' \<noteq> ''gut'' \<and> whole_word w' (lower ''Das ist nicht gut.''))
   \<and> score_sentence no_library ''de'' ''Das ist nicht gut.'' = - 2 / 3
   \<and> score_sentence no_library ''de'' ''Das ist gut.'' = 2 / 3"
proof -
  have a: "is_de ''de''" by code_simp
  have b: "\<exists>n \<in> set NEGATION_TOKENS. whole_word n (lower ''Das ist nicht gut.'')" by code_simp
  have c: "(''gut'', 2) \<in> set GERMAN_LEXICON" by (simp add: GERMAN_LEXICON_def)
  have d: "whole_word ''gut'' (lower ''Das ist nicht gut.'')" by code_simp
  have f: "\<forall>(w', v') \<in> set GERMAN_LEXICON. w' \<noteq> ''gut'' \<longrightarrow> \<not> whole_word w' (lower ''Das ist nicht gut.'')"
    by code_simp
  then have f': "\<not> (\<exists>(w', v') \<in> set GERMAN_LEXICON. w' \<noteq> ''gut'' \<and> whole_word w' (lower ''Das ist nicht gut.''))"
    by fast
  have g: "\<not> (\<exists>n \<in> set NEGATION_TOKENS. whole_word n (lower ''Das ist gut.''))" by code_simp
  have h: "\<forall>(w', v') \<in> set GERMAN_LEXICON.
      whole_word w' (lower ''Das ist gut.'') = whole_word w' (lower ''Das ist nicht gut.'')"
    by code_simp
  from negated_single_positive_hit [OF a b c _ d f, of no_library] g h
  have "score_sentence no_library ''de'' ''Das ist nicht gut.'' = - 2 / 3
      \<and> score_sentence no_library ''de'' ''Das ist gut.'' = 2 / 3"
    by simp
  then show ?thesis using a b c d f' by (intro conjI) (erule conjunct1 conjunct2 | assumption)+
qed

text \<open>
  Claim C5. On the German path the score is the normalisation of the raw lexicon sum
  (\<open>min (raw / 3) 1\<close> for a positive sum, \<open>max (raw / 3) (- 1)\<close> for a negative one,
  0 otherwise) and lies in [-1, 1]. Every other language tag returns the compound value
  of the English analyzer unchanged; when that library keeps its compound values in
  [-1, 1], so does \<open>score_sentence\<close> for every sentence and every tag.
\<close>

theorem score_sentence_range:
  "(is_de lang \<longrightarrow>
      score_sentence e lang sentence =
        (if german_raw sentence > 0 then min (german_raw sentence / 3.0) 1.0
         else if german_raw sentence < 0 then max (german_raw sentence / 3.0) (- 1.0)
         else 0.0)
      \<and> - 1 \<le> score_sentence e lang sentence \<and> score_sentence e lang sentence \<le> 1)
   \<and> (\<not> is_de lang \<longrightarrow> score_sentence e lang sentence = polarity_compound e sentence)
   \<and> ((\<forall>s. - 1 \<le> polarity_compound e s \<and> polarity_compound e s \<le> 1) \<longrightarrow>
        - 1 \<le> score_sentence e lang sentence \<and> score_sentence e lang sentence \<le> 1)"
proof -
  have de: "- 1 \<le> score_sentence e lang sentence \<and> score_sentence e lang sentence \<le> 1"
    if "is_de lang"
    using that by (simp add: score_of_raw Let_def min_def max_def)
  have en: "score_sentence e lang sentence = polarity_compound e sentence" if "\<not> is_de lang"
    using that by (simp add: score_sentence_def)
  have norm: "score_sentence e lang sentence =
        (if german_raw sentence > 0 then min (german_raw sentence / 3.0) 1.0
         else if german_raw sentence < 0 then max (german_raw sentence / 3.0) (- 1.0)
         else 0.0)" if "is_de lang"
    using that by (simp add: score_of_raw Let_def)
  show ?thesis
  proof (cases "is_de lang")
    case True
    then show ?thesis using de norm by blast
  next
    case False
    then show ?thesis using en by simp
  qed
qed

theorem score_sentence_range_witness:
  "is_de ''de'' \<and> \<not> is_de ''en''
   \<and> (\<forall>s. - 1 \<le> polarity_compound no_library s \<and> polarity_compound no_library s \<le> 1)
   \<and> - 1 \<le> score_sentence no_library ''de'' ''Gut, stark und erfolgreich.''
   \<and> score_sentence no_library ''de'' ''Gut, stark und erfolgreich.'' \<le> 1
   \<and> - 1 \<le> score_sentence no_library ''en'' ''Good.''
   \<and> score_sentence no_library ''en'' ''Good.'' \<le> 1"
proof -
  have a: "is_de ''de''" by code_simp
  have b: "\<not> is_de ''en''" by code_simp
  have c: "\<forall>s. - 1 \<le> polarity_compound no_library s \<and> polarity_compound no_library s \<le> 1"
    by (simp add: no_library_def)
  show ?thesis
    using a b c score_sentence_range [of "''de''" no_library "''Gut, stark und erfolgreich.''"]
      score_sentence_range [of "''en''" no_library "''Good.''"]
    by blast
qed

subsection \<open>AI-relevance filter and example buckets\<close>

lemma any_key_in_iff: "any_key_in ks s \<longleftrightarrow> (\<exists>k \<in> set ks. sublist k s)"
  by (induction ks) simp_all

lemma sentence_mentions_ai_iff:
  "sentence_mentions_ai s lang \<longleftrightarrow> (\<exists>k \<in> set (keywords_for lang). sublist k (lower s))"
  by (simp add: sentence_mentions_ai_def keywords_for_def any_key_in_iff)

lemma keep_ai_sentences_filter:
  "keep_ai_sentences lang sents = map (\<lambda>s. (lang, strip s)) (filter (ai_relevant lang) sents)"
  by (induction sents)
     (simp_all add: ai_relevant_def sentence_mentions_ai_iff MIN_SENTENCE_LEN_def not_less)

text \<open>
  Claim C4. The sentence loop keeps exactly the sentences that have at least 20 characters
  and whose lower-cased form contains, as a substring, a keyword of the German set when
  the release's language tag starts with \<^verbatim>\<open>de\<close> and of the English set otherwise; each
  kept sentence is paired with the tag and stripped. The test is on substrings: \<^verbatim>\<open>ai\<close>
  is found inside \<^verbatim>\<open>maintenance\<close> and \<^verbatim>\<open>ki\<close> inside \<^verbatim>\<open>kinder\<close>.
\<close>

theorem ai_relevance_filter:
  "keep_ai_sentences lang sents = map (\<lambda>s. (lang, strip s)) (filter (ai_relevant lang) sents)
   \<and> extract_ai_sentences e txt =
       map (\<lambda>s. (detect_lang e txt, strip s))
         (filter (ai_relevant (detect_lang e txt)) (split_sentences e txt (detect_lang e txt)))
   \<and> (keep_ai_sentences lang [s] \<noteq> [] \<longleftrightarrow>
        20 \<le> length s \<and>
        (\<exists>k \<in> set (if lang \<noteq> [] \<and> prefix ''de'' lang then AI_KEYWORDS_DE else AI_KEYWORDS_EN).
           sublist k (lower s)))
   \<and> ai_relevant ''en'' ''The maintenance plan was kept.''
   \<and> ai_relevant ''de'' ''Die Kinder spielen im Garten.''"
proof -
  have a: "keep_ai_sentences lang [s] \<noteq> [] \<longleftrightarrow>
        20 \<le> length s \<and>
        (\<exists>k \<in> set (if lang \<noteq> [] \<and> prefix ''de'' lang then AI_KEYWORDS_DE else AI_KEYWORDS_EN).
           sublist k (lower s))"
    by (simp add: keep_ai_sentences_filter ai_relevant_def keywords_for_def is_de_def)
  have b: "ai_relevant ''en'' ''The maintenance plan was kept.''" by code_simp
  have c: "ai_relevant ''de'' ''Die Kinder spielen im Garten.''" by code_simp
  have d: "extract_ai_sentences e txt =
       map (\<lambda>s. (detect_lang e txt, strip s))
         (filter (ai_relevant (detect_lang e txt)) (split_sentences e txt (detect_lang e txt)))"
    by (simp add: extract_ai_sentences_def keep_ai_sentences_filter Let_def)
  show ?thesis using a b c d keep_ai_sentences_filter by blast
qed

theorem ai_relevance_filter_witness:
  "keep_ai_sentences ''en'' [''AI is here.'', ''The maintenance plan was kept.'', ''Nothing to see in this one.'']
     = [(''en'', ''The maintenance plan was kept.'')]
   \<and> keep_ai_sentences ''de'' [''Die Kinder spielen im Garten. '', ''The AI wins all the time.'']
     = [(''de'', ''Die Kinder spielen im Garten.'')]"
proof -
  have "keep_ai_sentences ''en'' [''AI is here.'', ''The maintenance plan was kept.'', ''Nothing to see in this one.'']
     = [(''en'', ''The maintenance plan was kept.'')]"
    using ai_relevance_filter [of "''en''" "[''AI is here.'', ''The maintenance plan was kept.'', ''Nothing to see in this one.'']"]
    by code_simp
  moreover have "keep_ai_sentences ''de'' [''Die Kinder spielen im Garten. '', ''The AI wins all the time.'']
     = [(''de'', ''Die Kinder spielen im Garten.'')]"
    using ai_relevance_filter [of "''de''" "[''Die Kinder spielen im Garten. '', ''The AI wins all the time.'']"]
    by code_simp
  ultimately show ?thesis by blast
qed

lemma score_loop_general:
  "score_loop e ai_sents (scores, examples) =
     (scores @ map (\<lambda>ls. score_sentence e (fst ls) (snd ls)) ai_sents,
      \<lambda>l. examples l @ take (3 - length (examples l)) (labelled e l ai_sents))"
proof (induction ai_sents arbitrary: scores examples)
  case Nil
  then show ?case by (simp add: labelled_def)
next
  case (Cons x rest)
  obtain lang sent where x: "x = (lang, sent)" by (cases x)
  show ?case
    unfolding x
    by (auto simp: Cons.IH Let_def labelled_def sentence_label_def fun_eq_iff take_Cons')
qed

text \<open>
  Claim C7. After the sentence loop, the bucket of each label holds the first three texts,
  in original order, of the sentences whose own label it is, hence at most three; the
  score list holds every sentence's score. Five sentences that are all labelled positive
  leave the first three of them in the positive bucket.
\<close>

theorem example_buckets_capped:
  "snd (score_loop e ai_sents ([], \<lambda>l. [])) l = take 3 (labelled e l ai_sents)
   \<and> length (snd (score_loop e ai_sents ([], \<lambda>l. [])) l) \<le> 3
   \<and> fst (score_loop e ai_sents ([], \<lambda>l. [])) =
       map (\<lambda>ls. score_sentence e (fst ls) (snd ls)) ai_sents
   \<and> (length ai_sents = 5 \<and> (\<forall>ls \<in> set ai_sents. sentence_label e ls = Positive) \<longrightarrow>
        snd (score_loop e ai_sents ([], \<lambda>l. [])) Positive = map snd (take 3 ai_sents))"
proof -
  have b: "snd (score_loop e ai_sents ([], \<lambda>l. [])) l = take 3 (labelled e l ai_sents)"
    by (simp add: score_loop_general)
  have "labelled e Positive ai_sents = map snd ai_sents"
    if "\<forall>ls \<in> set ai_sents. sentence_label e ls = Positive"
    using that by (simp add: labelled_def)
  then have "snd (score_loop e ai_sents ([], \<lambda>l. [])) Positive = map snd (take 3 ai_sents)"
    if "\<forall>ls \<in> set ai_sents. sentence_label e ls = Positive"
    using that by (simp add: score_loop_general take_map)
  then show ?thesis
    using b by (simp add: score_loop_general)
qed

theorem example_buckets_capped_witness:
  "length [(''de'', ''gut a''), (''de'', ''gut b''), (''de'', ''gut c''),
           (''de'', ''gut d''), (''de'', ''gut e'')] = 5
   \<and> list_all (\<lambda>ls. sentence_label no_library ls = Positive)
        [(''de'', ''gut a''), (''de'', ''gut b''), (''de'', ''gut c''),
         (''de'', ''gut d''), (''de'', ''gut e'')]
   \<and> snd (score_loop no_library
        [(''de'', ''gut a''), (''de'', ''gut b''), (''de'', ''gut c''),
         (''de'', ''gut d''), (''de'', ''gut e'')] ([], \<lambda>l. [])) Positive
       = [''gut a'', ''gut b'', ''gut c'']"
proof -
  define xs where "xs = [(''de'', ''gut a''), (''de'', ''gut b''),
    (''de'', ''gut c''), (''de'', ''gut d''), (''de'', ''gut e'')]"
  have len: "length xs = 5"
    by (simp add: xs_def)
  have la: "list_all (\<lambda>ls. sentence_label no_library ls = Positive) xs"
    unfolding xs_def by code_simp
  then have pos: "\<forall>ls \<in> set xs. sentence_label no_library ls = Positive"
    by (simp only: list_all_iff)
  have "length xs = 5 \<and> (\<forall>ls \<in> set xs. sentence_label no_library ls = Positive) \<longrightarrow>
        snd (score_loop no_library xs ([], \<lambda>l. [])) Positive = map snd (take 3 xs)"
    using example_buckets_capped [of no_library xs Positive] by (rule conjunct2 [THEN conjunct2, THEN conjunct2])
  with len pos have "snd (score_loop no_library xs ([], \<lambda>l. [])) Positive = map snd (take 3 xs)"
    by (rule_tac mp) (assumption, rule conjI)
  moreover have "map snd (take 3 xs) = [''gut a'', ''gut b'', ''gut c'']"
    by (simp add: xs_def)
  ultimately have "snd (score_loop no_library xs ([], \<lambda>l. [])) Positive
      = [''gut a'', ''gut b'', ''gut c'']"
    by (rule trans)
  with len la show ?thesis
    unfolding xs_def by (intro conjI)
qed

subsection \<open>The regular-expression searches of the date helpers\<close>

declare try_down.simps [simp del]

lemma try_down_exact:
  "m \<le> lo \<Longrightarrow> try_down m lo k = (if m = lo then k lo else None)"
proof (cases "m = lo")
  case False
  moreover assume "m \<le> lo"
  ultimately show ?thesis by (subst try_down.simps) simp
next
  case True
  have "try_down m' lo k = None" if "m' < lo" for m'
    using that by (subst try_down.simps) simp
  then show ?thesis
    using True by (subst try_down.simps) (auto split: option.splits nat.splits)
qed

lemma try_down_top:
  "(\<forall>j. lo \<le> j \<and> j < n \<longrightarrow> k j = None) \<Longrightarrow> try_down n lo k = (if n < lo then None else k n)"
proof (induction n)
  case 0
  then show ?case by (subst try_down.simps) (simp split: option.splits)
next
  case (Suc n)
  then have ih: "try_down n lo k = (if n < lo then None else k n)" by simp
  show ?case
  proof (cases "Suc n < lo")
    case True
    then show ?thesis by (subst try_down.simps) simp
  next
    case False
    then have "try_down n lo k = None"
      using ih Suc.prems by (cases "n < lo") auto
    then show ?thesis
      using False by (subst try_down.simps) (simp split: option.splits)
  qed
qed

lemma takeWhile_length_ge:
  "m \<le> length (takeWhile P xs) \<longleftrightarrow> m \<le> length xs \<and> (\<forall>k < m. P (xs ! k))"
proof (induction xs arbitrary: m)
  case Nil
  then show ?case by auto
next
  case (Cons x xs)
  show ?case
  proof (cases m)
    case 0
    then show ?thesis by simp
  next
    case (Suc m')
    show ?thesis
      using Cons.IH [of m'] Suc
      by (auto simp: less_Suc_eq_0_disj)
  qed
qed

lemma run_ge:
  "0 < m \<Longrightarrow>
   m \<le> length (takeWhile P (drop i s)) \<longleftrightarrow> i + m \<le> length s \<and> (\<forall>k < m. P (s ! (i + k)))"
proof (cases "i \<le> length s")
  case True
  then show ?thesis by (auto simp: takeWhile_length_ge)
next
  case False
  moreover assume "0 < m"
  ultimately show ?thesis by auto
qed

lemma run_zero:
  "i < length s \<Longrightarrow> \<not> P (s ! i) \<Longrightarrow> takeWhile P (drop i s) = []"
  by (simp add: takeWhile_eq_Nil_iff hd_drop_conv_nth)

lemma take_eq_iff_nth:
  assumes "w \<noteq> []"
  shows "take (length w) (drop i s) = w \<longleftrightarrow>
     i + length w \<le> length s \<and> (\<forall>k < length w. s ! (i + k) = w ! k)"
proof
  assume eq: "take (length w) (drop i s) = w"
  have "0 < length w" using assms by simp
  from take_drop_eq_nth [OF eq this] have "i < length s" by simp
  moreover have "length (take (length w) (drop i s)) = length w"
    using eq by simp
  ultimately have "i + length w \<le> length s" by simp
  then show "i + length w \<le> length s \<and> (\<forall>k < length w. s ! (i + k) = w ! k)"
    using take_drop_eq_nth [OF eq] by simp
next
  assume r: "i + length w \<le> length s \<and> (\<forall>k < length w. s ! (i + k) = w ! k)"
  show "take (length w) (drop i s) = w"
  proof (rule nth_equalityI)
    have "length w \<le> length s - i" using r by linarith
    then show "length (take (length w) (drop i s)) = length w"
      by simp
  next
    fix k assume "k < length (take (length w) (drop i s))"
    then show "take (length w) (drop i s) ! k = w ! k"
      using r by simp
  qed
qed

lemma first_some_if:
  "first_some (\<lambda>i. if P i then Some (g i) else None) xs = map_option g (find P xs)"
  by (induction xs) simp_all

lemma first_some_case:
  "(\<And>x y. x \<in> set xs \<Longrightarrow> f x = Some y \<Longrightarrow> G (h x y) = K y) \<Longrightarrow>
   (case first_some (\<lambda>x. map_option (h x) (f x)) xs of None \<Rightarrow> None | Some m \<Rightarrow> G m)
     = (case first_some f xs of None \<Rightarrow> None | Some y \<Rightarrow> K y)"
proof (induction xs)
  case Nil
  then show ?case by simp
next
  case (Cons x xs)
  then show ?case by (cases "f x") simp_all
qed

lemma re_search_positions: "re_search r t = first_some (match_at r t) (positions t)"
  by (simp add: re_search_def re_search_from_def positions_def)

lemma try_down_below: "n < lo \<Longrightarrow> try_down n lo k = None"
  by (subst try_down.simps) simp

lemma try_down_first: "lo \<le> n \<Longrightarrow> k n \<noteq> None \<Longrightarrow> try_down n lo k = k n"
  by (subst try_down.simps) auto

lemma all_less_2: "(\<forall>k < Suc (Suc 0). P k) \<longleftrightarrow> P 0 \<and> P (Suc 0)"
  by (auto simp: less_Suc_eq)

lemma literal_20:
  "take 2 (drop i t) = ''20'' \<longleftrightarrow> i + 2 \<le> length t \<and> t ! i = CHR ''2'' \<and> t ! (i + 1) = CHR ''0''"
  using take_eq_iff_nth [of "''20''" i t] by (simp add: all_less_2 numeral_2_eq_2)

lemma two_digits:
  "2 \<le> length (takeWhile is_digit (drop j t)) \<longleftrightarrow>
     j + 2 \<le> length t \<and> is_digit (t ! j) \<and> is_digit (t ! (j + 1))"
  using run_ge [of 2 is_digit j t] by (simp add: all_less_2 numeral_2_eq_2)

lemma rmatch_year_digits:
  "rmatch year_digits t i c k = (if year_at t i then k (i + 4) c else None)"
proof -
  define n where "n = length (takeWhile is_digit (drop (i + 2) t))"
  have a: "rmatch year_digits t i c k =
      (if take 2 (drop i t) = ''20'' then try_down (min n 2) 2 (\<lambda>j. k (i + 2 + j) c) else None)"
    by (simp add: year_digits_def Let_def n_def numeral_2_eq_2)
  have "try_down (min n 2) 2 K = (if 2 \<le> n then K 2 else None)" for K :: "nat \<Rightarrow> 'a option"
    by (subst try_down_exact) (auto simp: min_def)
  then have "try_down (min n 2) 2 (\<lambda>j. k (i + 2 + j) c) = (if 2 \<le> n then k (i + 2 + 2) c else None)"
    by simp
  moreover have "i + 2 + 2 = i + 4" by arith
  ultimately have b: "try_down (min n 2) 2 (\<lambda>j. k (i + 2 + j) c) = (if 2 \<le> n then k (i + 4) c else None)"
    by (simp only:)
  have "2 \<le> n \<longleftrightarrow> i + 2 + 2 \<le> length t \<and> is_digit (t ! (i + 2)) \<and> is_digit (t ! (i + 2 + 1))"
    unfolding n_def by (rule two_digits)
  moreover have "i + 2 + 2 = i + 4" "i + 2 + 1 = i + 3" by arith+
  ultimately have c: "2 \<le> n \<longleftrightarrow> i + 4 \<le> length t \<and> is_digit (t ! (i + 2)) \<and> is_digit (t ! (i + 3))"
    by (simp only:)
  have d: "year_at t i \<longleftrightarrow> take 2 (drop i t) = ''20'' \<and> 2 \<le> n"
    unfolding c literal_20 year_at_def by auto
  show ?thesis
    unfolding a b d by simp
qed

lemma rmatch_one_sep:
  "rmatch (Cls is_date_sep 1 (Some 1)) t j c k =
     (if j < length t \<and> is_date_sep (t ! j) then k (j + 1) c else None)"
proof -
  define n where "n = length (takeWhile is_date_sep (drop j t))"
  have a: "rmatch (Cls is_date_sep 1 (Some 1)) t j c k = try_down (min n 1) 1 (\<lambda>a. k (j + a) c)"
    by (simp add: Let_def n_def)
  have "try_down (min n 1) 1 K = (if 1 \<le> n then K 1 else None)" for K :: "nat \<Rightarrow> 'a option"
    by (subst try_down_exact) (auto simp: min_def)
  then have b: "try_down (min n 1) 1 (\<lambda>a. k (j + a) c) = (if 1 \<le> n then k (j + 1) c else None)"
    by simp
  have c: "1 \<le> n \<longleftrightarrow> j < length t \<and> is_date_sep (t ! j)"
    unfolding n_def using run_ge [of 1 is_date_sep j t] by auto
  show ?thesis
    unfolding a b c by simp
qed

lemma rmatch_digits_1_2:
  assumes "\<And>j' c'. k j' c' \<noteq> None"
  shows "rmatch (Cls is_digit 1 (Some 2)) t j c k =
     (let ds = take 2 (takeWhile is_digit (drop j t))
      in if ds = [] then None else k (j + length ds) c)"
proof -
  define n where "n = length (takeWhile is_digit (drop j t))"
  have a: "rmatch (Cls is_digit 1 (Some 2)) t j c k = try_down (min n 2) 1 (\<lambda>a. k (j + a) c)"
    by (simp add: Let_def n_def)
  have l: "length (take 2 (takeWhile is_digit (drop j t))) = min n 2"
    by (simp add: n_def min.commute)
  show ?thesis
  proof (cases "n = 0")
    case True
    then have "min n 2 < 1" by simp
    then have "try_down (min n 2) 1 (\<lambda>a. k (j + a) c) = None"
      by (rule try_down_below)
    moreover have "take 2 (takeWhile is_digit (drop j t)) = []"
      using True by (simp add: n_def)
    ultimately show ?thesis unfolding a by (simp add: Let_def)
  next
    case False
    then have "1 \<le> min n 2" by simp
    then have "try_down (min n 2) 1 (\<lambda>a. k (j + a) c) = k (j + min n 2) c"
      using assms by (rule try_down_first)
    moreover have "take 2 (takeWhile is_digit (drop j t)) \<noteq> []"
      using False by (auto simp: n_def)
    ultimately show ?thesis unfolding a Let_def l by simp
  qed
qed

lemma match_at_year_rx:
  "match_at year_rx t i =
     (if year_at t i then Some \<lparr>m_start = i, m_end = i + 4, m_groups = [1 \<mapsto> (i, i + 4)]\<rparr>
      else None)"
  by (simp add: match_at_def year_rx_def rmatch_year_digits)

lemma match_at_year_month_rx:
  "match_at year_month_rx t i =
     map_option (\<lambda>ds. \<lparr>m_start = i, m_end = i + 5 + length ds,
                       m_groups = [1 \<mapsto> (i + 5, i + 5 + length ds)]\<rparr>)
       (month_digits_at t i)"
proof -
  have "match_at year_month_rx t i =
     (if year_at t i then
        if i + 4 < length t \<and> is_date_sep (t ! (i + 4)) then
          (let ds = take 2 (takeWhile is_digit (drop (i + 4 + 1) t))
           in if ds = [] then None
              else Some \<lparr>m_start = i, m_end = i + 4 + 1 + length ds,
                     m_groups = [1 \<mapsto> (i + 4 + 1, i + 4 + 1 + length ds)]\<rparr>)
        else None
      else None)"
    unfolding match_at_def year_month_rx_def rmatch.simps(3) rmatch.simps(5)
      rmatch_year_digits rmatch_one_sep
    by (subst rmatch_digits_1_2) simp_all
  moreover have "i + 4 + 1 = i + 5" by simp
  ultimately show ?thesis
    by (simp only: month_digits_at_def Let_def) (auto simp: add.assoc)
qed

lemma prefix_take: "prefix y xs \<longleftrightarrow> take (length y) xs = y"
proof
  assume "prefix y xs"
  then show "take (length y) xs = y" by (auto simp: prefix_def)
next
  assume "take (length y) xs = y"
  then have "xs = y @ drop (length y) xs"
    by (metis append_take_drop_id)
  then show "prefix y xs" unfolding prefix_def by blast
qed

lemma run_member:
  assumes "a < length (takeWhile P (drop j t))"
  shows "j + a < length t \<and> P (t ! (j + a))"
proof -
  have "Suc a \<le> length (takeWhile P (drop j t))" using assms by simp
  then have "j + Suc a \<le> length t \<and> (\<forall>k < Suc a. P (t ! (j + k)))"
    by (subst (asm) run_ge) simp_all
  then show ?thesis by simp
qed

lemma name_letter_not_space: "is_name_letter c \<Longrightarrow> \<not> is_space c"
  by (auto simp: is_name_letter_def is_space_def Let_def)

lemma match_at_name_year_rx:
  assumes "y \<noteq> []" "\<not> is_space (hd y)"
  shows "match_at (name_year_rx y) t j =
     map_option (\<lambda>w. \<lparr>m_start = j,
                      m_end = j + length w + length (takeWhile is_space (drop (j + length w) t))
                              + length y,
                      m_groups = [1 \<mapsto> (j, j + length w)]\<rparr>)
       (name_before y t j)"
proof -
  define n where "n = length (takeWhile is_name_letter (drop j t))"
  define m where "m = length (takeWhile is_space (drop (j + n) t))"
  define fin where "fin = (\<lambda>a b. if take (length y) (drop (j + a + b) t) = y
      then Some \<lparr>m_start = j, m_end = j + a + b + length y, m_groups = [Suc 0 \<mapsto> (j, j + a)]\<rparr>
      else None)"
  define inner where "inner = (\<lambda>a. try_down (length (takeWhile is_space (drop (j + a) t))) 1 (fin a))"
  have unfolded: "match_at (name_year_rx y) t j = try_down n 1 inner"
    by (simp add: match_at_def name_year_rx_def Let_def n_def inner_def fin_def)
  have short: "inner a = None" if "a < n" for a
  proof -
    from run_member [of a is_name_letter j t] that
    have "j + a < length t" "is_name_letter (t ! (j + a))" by (simp_all add: n_def)
    then have "takeWhile is_space (drop (j + a) t) = []"
      using name_letter_not_space run_zero by blast
    then show ?thesis by (simp add: inner_def try_down_below)
  qed
  have outer: "try_down n 1 inner = (if n < 1 then None else inner n)"
    by (rule try_down_top) (simp add: short)
  have early: "fin n b = None" if "b < m" for b
  proof -
    from run_member [of b is_space "j + n" t] that
    have sp: "is_space (t ! (j + n + b))" by (simp add: m_def)
    have "take (length y) (drop (j + n + b) t) \<noteq> y"
    proof
      assume eq: "take (length y) (drop (j + n + b) t) = y"
      have "0 < length y" using assms(1) by simp
      from take_drop_eq_nth [OF eq this] have "t ! (j + n + b) = hd y"
        using assms(1) by (simp add: hd_conv_nth)
      then show False using sp assms(2) by simp
    qed
    then show ?thesis by (simp add: fin_def)
  qed
  have "try_down m 1 (fin n) = (if m < 1 then None else fin n m)"
    by (rule try_down_top) (simp add: early)
  then have innern: "inner n = (if m < 1 then None else fin n m)"
    by (simp add: inner_def m_def)
  have nb: "name_before y t j =
      (if n \<noteq> 0 \<and> m \<noteq> 0 \<and> take (length y) (drop (j + n + m) t) = y
       then Some (takeWhile is_name_letter (drop j t)) else None)"
    by (simp add: name_before_def Let_def n_def m_def prefix_take add.commute add.left_commute)
  show ?thesis
    unfolding unfolded outer innern nb
    by (simp add: fin_def n_def m_def)
qed

lemma group_first:
  "group t \<lparr>m_start = a, m_end = b, m_groups = [Suc 0 \<mapsto> (p, q)]\<rparr> (Suc 0) = take (q - p) (drop p t)"
  by (simp add: group_def)

subsection \<open>Dates found in free text\<close>

lemma re_search_year_rx:
  "re_search year_rx t =
     map_option (\<lambda>p. \<lparr>m_start = p, m_end = p + 4, m_groups = [1 \<mapsto> (p, p + 4)]\<rparr>) (first_year t)"
  unfolding re_search_positions first_year_def
  by (simp only: match_at_year_rx [abs_def] first_some_if)

lemma first_year_at: "first_year t = Some p \<Longrightarrow> year_at t p"
  by (auto simp: first_year_def find_Some_iff)

lemma first_year_None_iff: "first_year t = None \<longleftrightarrow> (\<forall>i. \<not> year_at t i)"
proof -
  have "year_at t i \<Longrightarrow> i \<in> set (positions t)" for i
    by (simp add: year_at_def positions_def)
  then show ?thesis
    by (auto simp: first_year_def find_None_iff)
qed

lemma year_text:
  assumes "year_at t p"
  shows "take 4 (drop p t) = [CHR ''2'', CHR ''0'', t ! (p + 2), t ! (p + 3)]"
proof (rule nth_equalityI)
  have "4 \<le> length t - p" using assms unfolding year_at_def by linarith
  then show "length (take 4 (drop p t)) = length [CHR ''2'', CHR ''0'', t ! (p + 2), t ! (p + 3)]"
    by simp
next
  fix i assume "i < length (take 4 (drop p t))"
  then have "i < 4" by simp
  then consider "i = 0" | "i = 1" | "i = 2" | "i = 3" by linarith
  then show "take 4 (drop p t) ! i = [CHR ''2'', CHR ''0'', t ! (p + 2), t ! (p + 3)] ! i"
    using assms by cases (simp_all add: year_at_def)
qed

lemma year_value:
  assumes "is_digit a" "is_digit b"
  shows "2000 \<le> int_of_digits [CHR ''2'', CHR ''0'', a, b]
       \<and> int_of_digits [CHR ''2'', CHR ''0'', a, b] \<le> 2099"
  using assms by (simp add: int_of_digits_def is_digit_def code_point_def)

lemma year_range:
  assumes "year_at t p"
  shows "2000 \<le> int_of_digits (take 4 (drop p t)) \<and> int_of_digits (take 4 (drop p t)) \<le> 2099"
  using assms year_value [of "t ! (p + 2)" "t ! (p + 3)"]
  by (simp add: year_text) (simp add: year_at_def)

lemma month_number_range: "month_number w = Some k \<Longrightarrow> 1 \<le> k \<and> k \<le> 12"
proof -
  assume a: "month_number w = Some k"
  then have "map_of MONTHS_EN w = Some k \<or> map_of MONTHS_DE w = Some k"
    by (auto simp: month_number_def Let_def split: option.splits if_splits)
  then have "(w, k) \<in> set MONTHS_EN \<or> (w, k) \<in> set MONTHS_DE"
    by (auto dest: map_of_SomeD)
  then show ?thesis
    by (auto simp: MONTHS_EN_def MONTHS_DE_def)
qed

lemma mk_datetime_first_day:
  "1 \<le> y \<Longrightarrow> y \<le> 9999 \<Longrightarrow>
   mk_datetime y k (Suc 0) =
     (if 1 \<le> k \<and> k \<le> 12 then Some \<lparr>year = y, month = k, day = Suc 0\<rparr> else None)"
  by (auto simp: mk_datetime_def days_in_month_def)

lemma year_text_not_space:
  assumes "year_at t p"
  shows "take 4 (drop p t) \<noteq> [] \<and> \<not> is_space (hd (take 4 (drop p t)))"
  by (simp add: year_text [OF assms] is_space_def code_point_def)

lemma take_takeWhile_prefix:
  "take (length (take k (takeWhile P xs))) xs = take k (takeWhile P xs)"
proof -
  define n where "n = length (takeWhile P xs)"
  have tw: "takeWhile P xs = take n xs"
    unfolding n_def by (rule takeWhile_eq_take)
  have "n \<le> length xs"
    unfolding n_def by (rule length_takeWhile_le)
  then have "length (take k (take n xs)) = min k n"
    by (simp add: min.commute min.absorb1)
  then show ?thesis
    unfolding tw by (simp add: min.commute)
qed

lemma by_name_eq:
  assumes "y \<noteq> []" "\<not> is_space (hd y)"
  shows "(case re_search (name_year_rx y) t of
            None \<Rightarrow> None
          | Some m2 \<Rightarrow> month_number (lower (group t m2 1))) = named_month y t"
  unfolding re_search_positions named_month_def match_at_name_year_rx [OF assms, abs_def]
proof (rule first_some_case)
  fix j w assume "name_before y t j = Some w"
  then have "w = takeWhile is_name_letter (drop j t)"
    by (auto simp: name_before_def Let_def split: if_splits)
  then have "take (length w) (drop j t) = w"
    by (metis takeWhile_eq_take)
  then show "month_number (lower (group t
       \<lparr>m_start = j,
          m_end = j + length w + length (takeWhile is_space (drop (j + length w) t)) + length y,
          m_groups = [1 \<mapsto> (j, j + length w)]\<rparr> 1)) = month_number (lower w)"
    by (simp add: group_first)
qed

lemma by_number_eq:
  assumes "1 \<le> y" "y \<le> 9999"
  shows "(case re_search year_month_rx t of
            None \<Rightarrow> None
          | Some m3 \<Rightarrow> mk_datetime y (int_of_digits (group t m3 1)) 1)
         = map_option (\<lambda>k. \<lparr>year = y, month = k, day = 1\<rparr>) (numbered_month t)"
proof -
  have "(case re_search year_month_rx t of
            None \<Rightarrow> None
          | Some m3 \<Rightarrow> mk_datetime y (int_of_digits (group t m3 1)) 1)
        = (case first_some (month_digits_at t) (positions t) of
             None \<Rightarrow> None
           | Some ds \<Rightarrow> mk_datetime y (int_of_digits ds) 1)"
    unfolding re_search_positions match_at_year_month_rx [abs_def]
  proof (rule first_some_case)
    fix i ds assume "month_digits_at t i = Some ds"
    then have "ds = take 2 (takeWhile is_digit (drop (i + 5) t))"
      by (auto simp: month_digits_at_def split: if_splits)
    then have "take (length ds) (drop (i + 5) t) = ds"
      by (simp only: take_takeWhile_prefix)
    then show "mk_datetime y (int_of_digits (group t
         \<lparr>m_start = i, m_end = i + 5 + length ds,
            m_groups = [1 \<mapsto> (i + 5, i + 5 + length ds)]\<rparr> 1)) 1
        = mk_datetime y (int_of_digits ds) 1"
      by (simp add: group_first)
  qed
  then show ?thesis
    using assms by (simp add: numbered_month_def mk_datetime_first_day split: option.splits)
qed

lemma find_date_in_text_eq: "find_date_in_text t = Inr (date_in_text t)"
proof (cases "first_year t")
  case None
  then show ?thesis
    by (simp add: find_date_in_text_def re_search_year_rx date_in_text_def)
next
  case (Some p)
  then have ya: "year_at t p" by (rule first_year_at)
  define y where "y = take 4 (drop p t)"
  have ne: "t \<noteq> []" using ya by (auto simp: year_at_def)
  have g: "group t \<lparr>m_start = p, m_end = p + 4, m_groups = [1 \<mapsto> (p, p + 4)]\<rparr> 1 = y"
    by (simp add: group_first y_def)
  have yr: "1 \<le> int_of_digits y" "int_of_digits y \<le> 9999"
    using year_range [OF ya] by (simp_all add: y_def)
  have ys: "y \<noteq> []" "\<not> is_space (hd y)"
    using year_text_not_space [OF ya] by (simp_all add: y_def)
  have unfolded: "find_date_in_text t =
      (case named_month y t of
         Some monnum \<Rightarrow>
           (case mk_datetime (int_of_digits y) monnum 1 of
              Some d \<Rightarrow> Inr (Some d) | None \<Rightarrow> Inl ValueError)
       | None \<Rightarrow>
           (case map_option (\<lambda>k. \<lparr>year = int_of_digits y, month = k, day = 1\<rparr>) (numbered_month t) of
              Some d \<Rightarrow> Inr (Some d)
            | None \<Rightarrow>
               (case mk_datetime (int_of_digits y) 1 1 of
                  Some d \<Rightarrow> Inr (Some d) | None \<Rightarrow> Inl ValueError)))"
    unfolding find_date_in_text_def re_search_year_rx Some
    by (simp only: option.map option.case g Let_def by_name_eq [OF ys] by_number_eq [OF yr] ne if_False)
  show ?thesis
  proof (cases "named_month y t")
    case (Some k)
    then have "1 \<le> k \<and> k \<le> 12"
      by (auto simp: named_month_def split: option.splits dest: month_number_range)
    then show ?thesis
      using Some yr \<open>first_year t = Some p\<close>
      by (simp add: unfolded mk_datetime_first_day date_in_text_def y_def [symmetric])
  next
    case None
    then show ?thesis
      using yr \<open>first_year t = Some p\<close>
      by (simp add: unfolded mk_datetime_first_day date_in_text_def y_def [symmetric]
          split: option.splits)
  qed
qed

text \<open>
  Claim C3, as amended. \<^verbatim>\<open>_find_date_in_text\<close> never raises and returns \<open>date_in_text\<close>:
  the year is the leftmost \<^verbatim>\<open>20\d\d\<close> of the text and the day is 1. For the month, the
  leftmost place in the whole text where a run of letters, white space and the four
  digits of that year follow one another is taken (it need not be the first occurrence
  of the year); when its letters are a month name, that is the month. Otherwise the
  leftmost year-separator-digits place is taken; when its one or two digits are a number
  from 1 to 12, that is the month. Otherwise the month is 1. The result is \<open>None\<close>
  exactly when no position of the text reads \<^verbatim>\<open>20\d\d\<close>.
\<close>

theorem find_date_in_text_amended:
  "find_date_in_text t = Inr (date_in_text t)
   \<and> (find_date_in_text t = Inr None \<longleftrightarrow> (\<forall>i. \<not> year_at t i))
   \<and> (\<forall>p. first_year t = Some p \<longrightarrow> year_at t p \<and> (\<forall>q < p. \<not> year_at t q))"
proof -
  have a: "find_date_in_text t = Inr None \<longleftrightarrow> (\<forall>i. \<not> year_at t i)"
    unfolding find_date_in_text_eq first_year_None_iff [symmetric]
    by (simp add: date_in_text_def Let_def split: option.splits)
  have b: "year_at t p \<and> (\<forall>q < p. \<not> year_at t q)" if "first_year t = Some p" for p
  proof -
    from that obtain i where i: "i < length (positions t)" "year_at t (positions t ! i)"
      "p = positions t ! i" "\<forall>j < i. \<not> year_at t (positions t ! j)"
      unfolding first_year_def find_Some_iff by blast
    have "positions t ! j = j" if "j < length (positions t)" for j
      using that unfolding positions_def by (metis add_0 length_upt minus_nat.diff_0 nth_upt)
    then show ?thesis using i by (metis less_trans)
  qed
  show ?thesis using find_date_in_text_eq a b by blast
qed

theorem find_date_in_text_amended_witness:
  "find_date_in_text ''Berlin, 5. Maerz 2021'' = Inr (Some \<lparr>year = 2021, month = 3, day = 1\<rparr>)
   \<and> find_date_in_text ''no year here'' = Inr None"
proof -
  have "date_in_text ''Berlin, 5. Maerz 2021'' = Some \<lparr>year = 2021, month = 3, day = 1\<rparr>"
    by code_simp
  moreover have "date_in_text ''no year here'' = None"
    by code_simp
  ultimately show ?thesis
    using find_date_in_text_amended [of "''Berlin, 5. Maerz 2021''"]
      find_date_in_text_amended [of "''no year here''"]
    by simp
qed

text \<open>
  Claim C3 as the specification states it looks for the month name only immediately
  before the first occurrence of the year. On a text that starts with the year and
  names a month before a later occurrence of the same year, the source returns that
  month, where the stated rule gives the default month 1.
\<close>

theorem find_date_in_text_stated_counterexample:
  "find_date_in_text ''2021. March 2021'' = Inr (Some \<lparr>year = 2021, month = 3, day = 1\<rparr>)
   \<and> stated_date_in_text ''2021. March 2021'' = Some \<lparr>year = 2021, month = 1, day = 1\<rparr>
   \<and> find_date_in_text ''2021. March 2021'' \<noteq> Inr (stated_date_in_text ''2021. March 2021'')"
  by code_simp

text \<open>
  Claim C10. On the text \<^verbatim>\<open>In 2021 we started. Update 2023-09\<close> the year 2021 comes from
  the first year of the text (position 3), and the month 9 comes from the
  year-separator-digits place at position 27, whose year is 2023.
\<close>

theorem year_and_month_from_different_mentions:
  "find_date_in_text ''In 2021 we started. Update 2023-09''
     = Inr (Some \<lparr>year = 2021, month = 9, day = 1\<rparr>)
   \<and> first_year ''In 2021 we started. Update 2023-09'' = Some 3
   \<and> take 4 (drop 3 ''In 2021 we started. Update 2023-09'') = ''2021''
   \<and> first_some (\<lambda>i. map_option (Pair i) (month_digits_at ''In 2021 we started. Update 2023-09'' i))
        (positions ''In 2021 we started. Update 2023-09'') = Some (27, ''09'')
   \<and> take 4 (drop 27 ''In 2021 we started. Update 2023-09'') = ''2023''"
  by code_simp

theorem year_and_month_from_different_mentions_witness:
  "\<exists>t p q. first_year t = Some p
     \<and> first_some (\<lambda>i. map_option (Pair i) (month_digits_at t i)) (positions t) = Some (q, ''09'')
     \<and> take 4 (drop p t) = ''2021'' \<and> take 4 (drop q t) = ''2023''
     \<and> find_date_in_text t = Inr (Some \<lparr>year = 2021, month = 9, day = 1\<rparr>)"
  using year_and_month_from_different_mentions
  by (intro exI [of _ "''In 2021 we started. Update 2023-09''"] exI [of _ 3] exI [of _ 27]) simp

subsection \<open>The pipeline loop\<close>

lemma extract_year_month_Inr: "\<exists>ym. extract_year_month pd txt ttl u = Inr ym"
  by (simp add: extract_year_month_def find_date_in_text_eq split: option.splits)

lemma ensure_text_keeps:
  "url (ensure_text e r) = url r \<and> title (ensure_text e r) = title r
   \<and> publish_date (ensure_text e r) = publish_date r \<and> company (ensure_text e r) = company r"
  by (simp add: ensure_text_def split: option.splits)

lemma process_release_skip: "\<not> usable e r \<Longrightarrow> process_release e r = Inr None"
  by (auto simp: process_release_def usable_def Let_def)

lemma process_release_row:
  assumes "usable e r"
  shows "\<exists>row. process_release e r = Inr (Some row) \<and> row_url row = url r \<and> row_title row = title r"
proof -
  define item where "item = ensure_text e r"
  define body where "body = or_empty (item_text item)"
  have long: "\<not> (body = [] \<or> length body < 50)"
    using assms by (auto simp: usable_def body_def item_def)
  obtain ym where ym: "extract_year_month (publish_date item) body (title item) (url item) = Inr ym"
    using extract_year_month_Inr by blast
  obtain scores examples where sl: "score_loop e (extract_ai_sentences e body) ([], \<lambda>l. []) = (scores, examples)"
    by (cases "score_loop e (extract_ai_sentences e body) ([], \<lambda>l. [])")
  show ?thesis
    using long ym sl ensure_text_keeps [of e r]
    by (simp add: process_release_def Let_def item_def [symmetric] body_def [symmetric])
qed

lemma pipeline_loop_rows:
  "\<exists>new. pipeline_loop e rs rows = Inr (rows @ new)
         \<and> map row_url new = map url (filter (usable e) rs)"
proof (induction rs arbitrary: rows)
  case Nil
  then show ?case by simp
next
  case (Cons r rs)
  show ?case
  proof (cases "usable e r")
    case False
    then show ?thesis
      using Cons.IH [of rows] by (simp add: process_release_skip)
  next
    case True
    then obtain row where row: "process_release e r = Inr (Some row)" "row_url row = url r"
      using process_release_row by blast
    obtain new where "pipeline_loop e rs (rows @ [row]) = Inr ((rows @ [row]) @ new)"
      "map row_url new = map url (filter (usable e) rs)"
      using Cons.IH [of "rows @ [row]"] by blast
    then have "pipeline_loop e (r # rs) rows = Inr (rows @ (row # new))
        \<and> map row_url (row # new) = map url (filter (usable e) (r # rs))"
      using row True by simp
    then show ?thesis by blast
  qed
qed

text \<open>
  Claim C8, as amended. The text that decides is the one a release has after
  \<open>ensure_text\<close>: its own text when that is not empty; otherwise, for an address that ends
  in \<^verbatim>\<open>.pdf\<close>, the text that PDF extraction returns (empty when it fails); otherwise the
  empty text. A release whose text is then empty or shorter than 50 characters is
  skipped without an error, a release with at least 50 characters gives exactly one row,
  and the pipeline as a whole raises no error and returns the rows of the usable
  releases in their order.
\<close>

theorem short_text_is_skipped:
  "(\<not> usable e r \<longrightarrow> process_release e r = Inr None)
   \<and> (usable e r \<longrightarrow>
        (\<exists>row. process_release e r = Inr (Some row) \<and> row_url row = url r \<and> row_title row = title r))
   \<and> (\<exists>rows. run_pipeline e releases = Inr rows
         \<and> map row_url rows = map url (filter (usable e) releases)
         \<and> length rows = length (filter (usable e) releases))
   \<and> (or_empty (item_text r) \<noteq> [] \<longrightarrow>
        ensure_text e r = r \<and> usable e r = (50 \<le> length (or_empty (item_text r))))
   \<and> (or_empty (item_text r) = [] \<and> \<not> suffix ''.pdf'' (lower (url r)) \<longrightarrow> \<not> usable e r)
   \<and> (or_empty (item_text r) = [] \<and> suffix ''.pdf'' (lower (url r)) \<longrightarrow>
        usable e r = (50 \<le> length (or_empty (pdf_extract_text e (url r)))))"
proof -
  obtain rows where rows: "run_pipeline e releases = Inr rows"
     "map row_url rows = map url (filter (usable e) releases)"
    using pipeline_loop_rows [of e releases "[]"] by (auto simp: run_pipeline_def)
  from rows(2) have "length (map row_url rows) = length (map url (filter (usable e) releases))"
    by simp
  then have len: "length rows = length (filter (usable e) releases)"
    by simp
  have own: "ensure_text e r = r \<and> usable e r = (50 \<le> length (or_empty (item_text r)))"
    if "or_empty (item_text r) \<noteq> []"
    using that by (simp add: ensure_text_def usable_def)
  have none: "\<not> usable e r" if "or_empty (item_text r) = [] \<and> \<not> suffix ''.pdf'' (lower (url r))"
    using that by (simp add: ensure_text_def usable_def or_empty_def)
  have pdf: "usable e r = (50 \<le> length (or_empty (pdf_extract_text e (url r))))"
    if "or_empty (item_text r) = [] \<and> suffix ''.pdf'' (lower (url r))"
    using that by (simp add: ensure_text_def usable_def or_empty_def split: option.splits)
  show ?thesis
    using process_release_skip [of e r] process_release_row [of e r] rows len own none pdf
    by blast
qed

theorem short_text_is_skipped_witness:
  "usable pdf_library
     \<lparr>url = ''https://example.com/news/1'', title = ''One'',
      item_text = Some ''Unsere KI ist gut. Das Jahr 2021 war erfolgreich und stark.'',
      publish_date = None, company = Some ''sap'', local = False\<rparr>
   \<and> \<not> usable pdf_library
     \<lparr>url = ''https://example.com/news/2'', title = ''Two'', item_text = Some ''Zu kurz.'',
      publish_date = None, company = Some ''sap'', local = False\<rparr>
   \<and> \<not> usable pdf_library
     \<lparr>url = ''https://example.com/news/3'', title = ''Three'', item_text = None,
      publish_date = None, company = None, local = False\<rparr>
   \<and> usable pdf_library
     \<lparr>url = ''local_releases/four.PDF'', title = ''four.PDF'', item_text = Some [],
      publish_date = None, company = Some '''', local = True\<rparr>
   \<and> (\<exists>rows. run_pipeline pdf_library
        [\<lparr>url = ''https://example.com/news/1'', title = ''One'',
          item_text = Some ''Unsere KI ist gut. Das Jahr 2021 war erfolgreich und stark.'',
          publish_date = None, company = Some ''sap'', local = False\<rparr>,
         \<lparr>url = ''https://example.com/news/2'', title = ''Two'', item_text = Some ''Zu kurz.'',
          publish_date = None, company = Some ''sap'', local = False\<rparr>,
         \<lparr>url = ''https://example.com/news/3'', title = ''Three'', item_text = None,
          publish_date = None, company = None, local = False\<rparr>,
         \<lparr>url = ''local_releases/four.PDF'', title = ''four.PDF'', item_text = Some [],
          publish_date = None, company = Some '''', local = True\<rparr>] = Inr rows
       \<and> map row_url rows = [''https://example.com/news/1'', ''local_releases/four.PDF''])"
proof -
  define a where "a = \<lparr>url = ''https://example.com/news/1'', title = ''One'',
      item_text = Some ''Unsere KI ist gut. Das Jahr 2021 war erfolgreich und stark.'',
      publish_date = None, company = Some ''sap'', local = False\<rparr>"
  define b where "b = \<lparr>url = ''https://example.com/news/2'', title = ''Two'', item_text = Some ''Zu kurz.'',
      publish_date = None, company = Some ''sap'', local = False\<rparr>"
  define c where "c = \<lparr>url = ''https://example.com/news/3'', title = ''Three'', item_text = None,
      publish_date = None, company = None, local = False\<rparr>"
  define d where "d = \<lparr>url = ''local_releases/four.PDF'', title = ''four.PDF'', item_text = Some [],
      publish_date = None, company = Some '''', local = True\<rparr>"
  have ua: "usable pdf_library a" unfolding a_def by code_simp
  have ub: "\<not> usable pdf_library b" unfolding b_def by code_simp
  have uc: "\<not> usable pdf_library c" unfolding c_def by code_simp
  have ud: "usable pdf_library d" unfolding d_def by code_simp
  have f: "map url (filter (usable pdf_library) [a, b, c, d])
      = [''https://example.com/news/1'', ''local_releases/four.PDF'']"
    using ua ub uc ud by (simp add: a_def d_def)
  obtain rows where "run_pipeline pdf_library [a, b, c, d] = Inr rows"
     "map row_url rows = map url (filter (usable pdf_library) [a, b, c, d])"
    using short_text_is_skipped [of pdf_library a "[a, b, c, d]"] by blast
  then have "\<exists>rows. run_pipeline pdf_library [a, b, c, d] = Inr rows
       \<and> map row_url rows = [''https://example.com/news/1'', ''local_releases/four.PDF'']"
    using f by auto
  then show ?thesis
    using ua ub uc ud unfolding a_def b_def c_def d_def by (intro conjI)
qed

text \<open>
  Claim C8 as the specification states it skips every release whose own text is absent.
  A local PDF release is built with the empty text (line 232) and \<open>ensure_text\<close> fills
  it from the PDF (lines 337-341): with an extraction of 50 characters or more the
  release gets a row.
\<close>

theorem absent_text_with_pdf_counterexample:
  "or_empty (item_text
     \<lparr>url = ''local_releases/sap_2021.pdf'', title = ''sap_2021.pdf'', item_text = Some [],
      publish_date = None, company = Some ''sap'', local = True\<rparr>) = []
   \<and> (\<exists>row. process_release pdf_library
        \<lparr>url = ''local_releases/sap_2021.pdf'', title = ''sap_2021.pdf'', item_text = Some [],
         publish_date = None, company = Some ''sap'', local = True\<rparr> = Inr (Some row)
       \<and> row_url row = ''local_releases/sap_2021.pdf'')
   \<and> (\<exists>rows. run_pipeline pdf_library
        [\<lparr>url = ''local_releases/sap_2021.pdf'', title = ''sap_2021.pdf'', item_text = Some [],
          publish_date = None, company = Some ''sap'', local = True\<rparr>] = Inr rows
       \<and> length rows = 1)"
proof -
  define x where "x = \<lparr>url = ''local_releases/sap_2021.pdf'', title = ''sap_2021.pdf'',
      item_text = Some [], publish_date = None, company = Some ''sap'', local = True\<rparr>"
  have e: "or_empty (item_text x) = []"
    by (simp add: x_def or_empty_def)
  have u: "usable pdf_library x"
    unfolding x_def by code_simp
  obtain row where row: "process_release pdf_library x = Inr (Some row)" "row_url row = url x"
    using process_release_row [OF u] by blast
  then have r: "\<exists>row. process_release pdf_library x = Inr (Some row)
       \<and> row_url row = ''local_releases/sap_2021.pdf''"
    by (auto simp: x_def)
  have "pipeline_loop pdf_library [x] [] = Inr [row]"
    using row by simp
  then have p: "\<exists>rows. run_pipeline pdf_library [x] = Inr rows \<and> length rows = 1"
    by (simp add: run_pipeline_def)
  show ?thesis
    using e r p unfolding x_def by (intro conjI)
qed

subsection \<open>Explicit date strings\<close>

































end
